theory Spec2Isabelle
  imports Main
begin

section \<open>Time values and the calendar of the JavaScript Date object\<close>

text \<open>
  \<^verbatim>\<open>server.js\<close> computes its dates with the built-in \<^verbatim>\<open>Date\<close> object:
  \<^verbatim>\<open>new Date(s)\<close>, \<^verbatim>\<open>getDate\<close>, \<^verbatim>\<open>setDate\<close> and \<^verbatim>\<open>toISOString\<close>. A time value is a
  number of milliseconds since 1970-01-01T00:00:00Z, here an \<^typ>\<open>int\<close>; an invalid Date
  (time value NaN) is \<^term>\<open>None\<close>. The functions below are the abstract operations of
  ECMA-262 (section "Date Objects") under their own names.
\<close>

definition msPerDay :: int where
  "msPerDay = 86400000"

definition Day :: "int \<Rightarrow> int" where
  "Day t = t div msPerDay"

definition TimeWithinDay :: "int \<Rightarrow> int" where
  "TimeWithinDay t = t mod msPerDay"

definition DaysInYear :: "int \<Rightarrow> int" where
  "DaysInYear y =
     (if y mod 4 \<noteq> 0 then 365
      else if y mod 100 \<noteq> 0 then 366
      else if y mod 400 \<noteq> 0 then 365
      else 366)"

definition DayFromYear :: "int \<Rightarrow> int" where
  "DayFromYear y =
     365 * (y - 1970) + (y - 1969) div 4 - (y - 1901) div 100 + (y - 1601) div 400"

lemma div_step:
  fixes x k :: int
  assumes "0 < k"
  shows "(x + 1) div k = x div k + (if (x + 1) mod k = 0 then 1 else 0)"
proof (cases "x mod k + 1 < k")
  case True
  have e: "x + 1 = k * (x div k) + (x mod k + 1)" by simp
  have r: "0 \<le> x mod k + 1" using assms by (simp add: add_nonneg_nonneg)
  have "(x + 1) div k = x div k"
    using int_div_pos_eq [OF e r True] .
  moreover have "(x + 1) mod k = x mod k + 1"
    using int_mod_pos_eq [OF e r True] .
  moreover have "0 \<le> x mod k" using assms by simp
  ultimately show ?thesis by simp
next
  case False
  have "x mod k < k" using assms by simp
  with False have k: "x mod k + 1 = k" by simp
  have "x + 1 = k * (x div k) + (x mod k + 1)" by simp
  also have "\<dots> = k * (x div k) + k" by (simp only: k)
  finally have e: "x + 1 = k * (x div k + 1) + 0" by (simp add: algebra_simps)
  have "(x + 1) div k = x div k + 1"
    using int_div_pos_eq [OF e _ assms] by simp
  moreover have "(x + 1) mod k = 0"
    using int_mod_pos_eq [OF e _ assms] by simp
  ultimately show ?thesis by simp
qed

lemma mod_shift: "(k::int) dvd c \<Longrightarrow> (y - c) mod k = 0 \<longleftrightarrow> y mod k = 0"
  by (simp add: mod_eq_0_iff_dvd dvd_diff_left_iff)

lemma mod_100_4: "(y::int) mod 100 = 0 \<Longrightarrow> y mod 4 = 0"
proof -
  assume "y mod 100 = 0"
  then have "100 dvd y" by (simp add: mod_eq_0_iff_dvd)
  moreover have "(4::int) dvd 100" by simp
  ultimately have "4 dvd y" by (rule dvd_trans [rotated])
  then show ?thesis by (simp add: mod_eq_0_iff_dvd)
qed

lemma mod_400_100: "(y::int) mod 400 = 0 \<Longrightarrow> y mod 100 = 0"
proof -
  assume "y mod 400 = 0"
  then have "400 dvd y" by (simp add: mod_eq_0_iff_dvd)
  moreover have "(100::int) dvd 400" by simp
  ultimately have "100 dvd y" by (rule dvd_trans [rotated])
  then show ?thesis by (simp add: mod_eq_0_iff_dvd)
qed

lemma div_step_const:
  fixes y c d k :: int
  assumes "0 < k" and "k dvd c" and "d = c + 1"
  shows "(y - c) div k = (y - d) div k + (if y mod k = 0 then 1 else 0)"
proof -
  have e: "y - d + 1 = y - c" using assms(3) by simp
  have "(y - d + 1) div k = (y - d) div k + (if (y - d + 1) mod k = 0 then 1 else 0)"
    using assms(1) by (rule div_step)
  then have "(y - c) div k = (y - d) div k + (if (y - c) mod k = 0 then 1 else 0)"
    by (simp only: e)
  then show ?thesis by (simp only: mod_shift [OF assms(2)])
qed

lemma DaysInYear_indicators:
  "DaysInYear y = 365 + (if y mod 4 = 0 then 1 else 0) - (if y mod 100 = 0 then 1 else 0)
                      + (if y mod 400 = 0 then 1 else 0)"
proof (cases "y mod 4 = 0")
  case False
  then have "y mod 100 \<noteq> 0" by (auto dest: mod_100_4)
  moreover from this have "y mod 400 \<noteq> 0" by (auto dest: mod_400_100)
  ultimately show ?thesis using False by (simp add: DaysInYear_def)
next
  case four: True
  show ?thesis
  proof (cases "y mod 100 = 0")
    case False
    then have "y mod 400 \<noteq> 0" by (auto dest: mod_400_100)
    then show ?thesis using four False by (simp add: DaysInYear_def)
  next
    case hundred: True
    show ?thesis
    proof (cases "y mod 400 = 0")
      case True
      then show ?thesis using four hundred by (simp add: DaysInYear_def)
    next
      case False
      then show ?thesis using four hundred by (simp add: DaysInYear_def)
    qed
  qed
qed

lemma DayFromYear_Suc: "DayFromYear (y + 1) = DayFromYear y + DaysInYear y"
proof -
  define A B C where "A = (y - 1969) div 4" and "B = (y - 1901) div 100"
    and "C = (y - 1601) div 400"
  define p q r :: int where "p = (if y mod 4 = 0 then 1 else 0)"
    and "q = (if y mod 100 = 0 then 1 else 0)" and "r = (if y mod 400 = 0 then 1 else 0)"
  have a: "(y - 1968) div 4 = A + p"
    unfolding A_def p_def by (rule div_step_const) simp_all
  have b: "(y - 1900) div 100 = B + q"
    unfolding B_def q_def by (rule div_step_const) simp_all
  have c: "(y - 1600) div 400 = C + r"
    unfolding C_def r_def by (rule div_step_const) simp_all
  have "DayFromYear (y + 1) =
      365 * (y - 1969) + (y - 1968) div 4 - (y - 1900) div 100 + (y - 1600) div 400"
    by (simp add: DayFromYear_def)
  then have l: "DayFromYear (y + 1) = 365 * (y - 1969) + (A + p) - (B + q) + (C + r)"
    by (simp only: a b c)
  have m: "DayFromYear y = 365 * (y - 1970) + A - B + C"
    by (simp only: DayFromYear_def A_def B_def C_def)
  have n: "DaysInYear y = 365 + p - q + r"
    by (simp only: DaysInYear_indicators p_def q_def r_def)
  show ?thesis by (simp only: l m n) simp
qed

lemma DayFromYear_less_Suc: "DayFromYear y < DayFromYear (y + 1)"
  by (simp add: DayFromYear_Suc DaysInYear_def)

text \<open>
  ECMA-262 defines \<^verbatim>\<open>YearFromTime(t)\<close> as the largest year \<open>y\<close> whose first day is not
  after \<open>t\<close>. \<open>year_search\<close> finds it by walking up from a year that is not too late.
\<close>

function year_search :: "int \<Rightarrow> int \<Rightarrow> int" where
  "year_search d y = (if DayFromYear (y + 1) \<le> d then year_search d (y + 1) else y)"
  by pat_completeness auto
termination
proof (relation "measure (\<lambda>(d, y). nat (d - DayFromYear y))")
  show "wf (measure (\<lambda>(d, y). nat (d - DayFromYear y)))" by simp
next
  fix d y :: int
  assume "DayFromYear (y + 1) \<le> d"
  then show "((d, y + 1), (d, y)) \<in> measure (\<lambda>(d, y). nat (d - DayFromYear y))"
    using DayFromYear_less_Suc [of y] by simp
qed

declare year_search.simps [simp del]

definition YearFromDay :: "int \<Rightarrow> int" where
  "YearFromDay d = year_search d (1970 + (if 0 \<le> d then d div 366 else d div 365))"

definition YearFromTime :: "int \<Rightarrow> int" where
  "YearFromTime t = YearFromDay (Day t)"

definition InLeapYear :: "int \<Rightarrow> int" where
  "InLeapYear t = (if DaysInYear (YearFromTime t) = 366 then 1 else 0)"

definition DayWithinYear :: "int \<Rightarrow> int" where
  "DayWithinYear t = Day t - DayFromYear (YearFromTime t)"

text \<open>The day of the year on which month \<open>m\<close> (0 = January) starts; 12 is the year's end.\<close>

definition month_start :: "int \<Rightarrow> int \<Rightarrow> int" where
  "month_start leap m =
     (if m = 0 then 0
      else if m = 1 then 31
      else if m = 2 then 59 + leap
      else if m = 3 then 90 + leap
      else if m = 4 then 120 + leap
      else if m = 5 then 151 + leap
      else if m = 6 then 181 + leap
      else if m = 7 then 212 + leap
      else if m = 8 then 243 + leap
      else if m = 9 then 273 + leap
      else if m = 10 then 304 + leap
      else if m = 11 then 334 + leap
      else 365 + leap)"

definition month_of_day :: "int \<Rightarrow> int \<Rightarrow> int" where
  "month_of_day leap d =
     (if d < 31 then 0
      else if d < 59 + leap then 1
      else if d < 90 + leap then 2
      else if d < 120 + leap then 3
      else if d < 151 + leap then 4
      else if d < 181 + leap then 5
      else if d < 212 + leap then 6
      else if d < 243 + leap then 7
      else if d < 273 + leap then 8
      else if d < 304 + leap then 9
      else if d < 334 + leap then 10
      else 11)"

definition MonthFromTime :: "int \<Rightarrow> int" where
  "MonthFromTime t = month_of_day (InLeapYear t) (DayWithinYear t)"

definition DateFromTime :: "int \<Rightarrow> int" where
  "DateFromTime t =
     DayWithinYear t - month_start (InLeapYear t) (MonthFromTime t) + 1"

definition HourFromTime :: "int \<Rightarrow> int" where
  "HourFromTime t = (t div 3600000) mod 24"

definition MinFromTime :: "int \<Rightarrow> int" where
  "MinFromTime t = (t div 60000) mod 60"

definition SecFromTime :: "int \<Rightarrow> int" where
  "SecFromTime t = (t div 1000) mod 60"

definition msFromTime :: "int \<Rightarrow> int" where
  "msFromTime t = t mod 1000"

text \<open>
  \<^verbatim>\<open>MakeDay(year, month, date)\<close>: the day number of the first of the month, plus
  \<open>date - 1\<close>; a month outside 0..11 carries into the year and a date outside the month
  carries into the neighbouring months, which is what \<^verbatim>\<open>setDate(getDate() + n)\<close> relies on.
\<close>

definition MakeDay :: "int \<Rightarrow> int \<Rightarrow> int \<Rightarrow> int" where
  "MakeDay year month date =
     (let ym = year + month div 12;
          mn = month mod 12
      in DayFromYear ym + month_start (if DaysInYear ym = 366 then 1 else 0) mn + date - 1)"

definition MakeDate :: "int \<Rightarrow> int \<Rightarrow> int" where
  "MakeDate day time = day * msPerDay + time"

definition TimeClip :: "int \<Rightarrow> int option" where
  "TimeClip t = (if \<bar>t\<bar> > 8640000000000000 then None else Some t)"

text \<open>
  The local time zone of the process. \<open>offsetAtUTC z t\<close> is the zone's offset from UTC
  in milliseconds at the UTC instant \<open>t\<close>; \<open>offsetAtLocal z tl\<close> is the offset the zone
  assigns to the local wall-clock time \<open>tl\<close>.
\<close>

record timezone =
  offsetAtUTC :: "int \<Rightarrow> int"
  offsetAtLocal :: "int \<Rightarrow> int"

definition LocalTime :: "timezone \<Rightarrow> int \<Rightarrow> int" where
  "LocalTime z t = t + offsetAtUTC z t"

definition UTC :: "timezone \<Rightarrow> int \<Rightarrow> int" where
  "UTC z lt = lt - offsetAtLocal z lt"

text \<open>\<^verbatim>\<open>Date.prototype.getDate\<close>: the day of the month in local time, NaN for an invalid Date.\<close>

definition getDate :: "timezone \<Rightarrow> int option \<Rightarrow> int option" where
  "getDate z d = (case d of None \<Rightarrow> None | Some t \<Rightarrow> Some (DateFromTime (LocalTime z t)))"

text \<open>
  \<^verbatim>\<open>Date.prototype.setDate(dt)\<close>: replaces the day of the month of the local time and
  converts back to UTC; the result is the Date's new time value.
\<close>

definition setDate :: "timezone \<Rightarrow> int option \<Rightarrow> int option \<Rightarrow> int option" where
  "setDate z d dt =
     (case d of
        None \<Rightarrow> None
      | Some tv \<Rightarrow>
          (case dt of
             None \<Rightarrow> None
           | Some n \<Rightarrow>
               (let t = LocalTime z tv;
                    newDate = MakeDate (MakeDay (YearFromTime t) (MonthFromTime t) n) (TimeWithinDay t)
                in TimeClip (UTC z newDate))))"

subsection \<open>Decimal digits\<close>

definition digit_char :: "nat \<Rightarrow> char" where
  "digit_char n = ''0123456789'' ! (n mod 10)"

fun pad_digits :: "nat \<Rightarrow> nat \<Rightarrow> string" where
  "pad_digits 0 n = []"
| "pad_digits (Suc w) n = pad_digits w (n div 10) @ [digit_char n]"

fun decimal :: "nat \<Rightarrow> string" where
  "decimal n = (if n < 10 then [digit_char n] else decimal (n div 10) @ [digit_char n])"

declare decimal.simps [simp del]

definition digit_val :: "char \<Rightarrow> nat option" where
  "digit_val c =
     map_of [(CHR ''0'', 0), (CHR ''1'', 1), (CHR ''2'', 2), (CHR ''3'', 3), (CHR ''4'', 4),
             (CHR ''5'', 5), (CHR ''6'', 6), (CHR ''7'', 7), (CHR ''8'', 8), (CHR ''9'', 9)] c"

text \<open>The number a string of decimal digits denotes; \<open>None\<close> if a character is no digit.\<close>

definition digits_val :: "string \<Rightarrow> nat option" where
  "digits_val s =
     foldl (\<lambda>acc c. case acc of
                       None \<Rightarrow> None
                     | Some u \<Rightarrow> (case digit_val c of None \<Rightarrow> None | Some v \<Rightarrow> Some (10 * u + v)))
           (Some 0) s"

subsection \<open>toISOString and the date-only string format\<close>

definition year_string :: "int \<Rightarrow> string" where
  "year_string y =
     (if 0 \<le> y \<and> y \<le> 9999 then pad_digits 4 (nat y)
      else (if y < 0 then ''-'' else ''+'') @ pad_digits 6 (nat \<bar>y\<bar>))"

definition toISOString :: "int \<Rightarrow> string" where
  "toISOString t =
     year_string (YearFromTime t) @ ''-'' @ pad_digits 2 (nat (MonthFromTime t + 1)) @ ''-'' @
     pad_digits 2 (nat (DateFromTime t)) @ ''T'' @ pad_digits 2 (nat (HourFromTime t)) @ '':'' @
     pad_digits 2 (nat (MinFromTime t)) @ '':'' @ pad_digits 2 (nat (SecFromTime t)) @ ''.'' @
     pad_digits 3 (nat (msFromTime t)) @ ''Z''"

text \<open>\<^verbatim>\<open>s.split('T')[0]\<close>: the part of \<open>s\<close> before its first \<^verbatim>\<open>T\<close>.\<close>

definition split_T_0 :: "string \<Rightarrow> string" where
  "split_T_0 s = takeWhile (\<lambda>c. c \<noteq> CHR ''T'') s"

text \<open>
  \<^verbatim>\<open>Date.parse\<close> on the date-only form \<^verbatim>\<open>YYYY-MM-DD\<close> of the Date Time String Format: a
  calendar date, read as midnight UTC. Every other string is left to the engine
  (\<open>implParse\<close> below), as ECMA-262 leaves it.
\<close>

definition parse_iso_date :: "string \<Rightarrow> int option" where
  "parse_iso_date s =
     (if length s = 10 \<and> s ! 4 = CHR ''-'' \<and> s ! 7 = CHR ''-'' then
        (case (digits_val (take 4 s), digits_val (take 2 (drop 5 s)), digits_val (drop 8 s)) of
           (Some y, Some m, Some d) \<Rightarrow>
             (let leap = (if DaysInYear (int y) = 366 then 1 else 0) in
              if 1 \<le> m \<and> m \<le> 12 \<and> 1 \<le> d \<and>
                 int d \<le> month_start leap (int m) - month_start leap (int m - 1)
              then Some (MakeDate (MakeDay (int y) (int m - 1) (int d)) 0)
              else None)
         | _ \<Rightarrow> None)
      else None)"

definition Date_parse :: "(string \<Rightarrow> int option) \<Rightarrow> string \<Rightarrow> int option" where
  "Date_parse impl s = (case parse_iso_date s of Some t \<Rightarrow> Some t | None \<Rightarrow> impl s)"

section \<open>JSON values\<close>

datatype json =
    JNull
  | JBool bool
  | JNum int
  | JStr string
  | JArr "json list"
  | JObj "(string \<times> json) list"

text \<open>
  Reading the property \<open>k\<close> of a parsed JSON value, for the two names the server reads
  (\<^verbatim>\<open>matches\<close> and \<^verbatim>\<open>status\<close>): \<^verbatim>\<open>null.k\<close> throws a TypeError, an object yields its
  member (the last one of that name) and every other value yields \<^verbatim>\<open>undefined\<close>.
\<close>

definition get_prop :: "json \<Rightarrow> string \<Rightarrow> string + json option" where
  "get_prop v k =
     (case v of
        JNull \<Rightarrow> Inl (''Cannot read properties of null (reading '' @ [CHR 0x27] @ k @ [CHR 0x27] @ '')'')
      | JObj kvs \<Rightarrow> Inr (map_of (rev kvs) k)
      | _ \<Rightarrow> Inr None)"

section \<open>The upstream fetcher: fetchMatches\<close>

record match_query_result =
  matches :: "json list"
  count :: nat
  totalAvailable :: "nat option"
  error :: "string option"
  timestamp :: "string option"

text \<open>The outbound request: the token header and the query parameters of the URL.\<close>

record request =
  auth_token :: string
  query :: "(string \<times> string) list"

text \<open>
  What \<^verbatim>\<open>fetch\<close> comes back with: a rejection (network failure, timeout) with its message,
  or a response with its status, what \<^verbatim>\<open>res.text()\<close> yields (\<open>None\<close>: it rejects) and what
  \<^verbatim>\<open>res.json()\<close> yields (\<open>Inl\<close>: it rejects with that message).
\<close>

record http_response =
  status_code :: nat
  body_text :: "string option"
  body_json :: "string + json"

datatype fetch_outcome = Rejected string | Resolved http_response

text \<open>
  The world around the server: the environment variable, whether the dynamic import of
  \<^verbatim>\<open>node-fetch\<close> fails, the upstream API, the process's time zone and the engine's parser
  for date strings outside the date-only format.
\<close>

record env =
  FOOTBALL_API_TOKEN :: "string option"
  import_failure :: "string option"
  upstream :: "request \<Rightarrow> fetch_outcome"
  zone :: timezone
  implParse :: "string \<Rightarrow> int option"

text \<open>JavaScript truthiness of a value that is \<^verbatim>\<open>null\<close>/\<^verbatim>\<open>undefined\<close> or a string.\<close>

definition truthy :: "string option \<Rightarrow> bool" where
  "truthy v = (case v of None \<Rightarrow> False | Some s \<Rightarrow> s \<noteq> [])"

definition str_of :: "string option \<Rightarrow> string" where
  "str_of v = (case v of None \<Rightarrow> [] | Some s \<Rightarrow> s)"

text \<open>\<^verbatim>\<open>new Date(s)\<close> for a string \<open>s\<close>.\<close>

definition new_Date :: "env \<Rightarrow> string \<Rightarrow> int option" where
  "new_Date e s = Date_parse (implParse e) s"

text \<open>
  Lines 68-70: \<^verbatim>\<open>to = new Date(dateFrom); to.setDate(to.getDate() + 5);
  dateTo = to.toISOString().split('T')[0]\<close>. \<^verbatim>\<open>toISOString\<close> throws a RangeError on an invalid
  Date.
\<close>

definition default_dateTo :: "env \<Rightarrow> string \<Rightarrow> string + string" where
  "default_dateTo e dateFrom =
     (let to = new_Date e dateFrom;
          to' = setDate (zone e) to (map_option (\<lambda>d. d + 5) (getDate (zone e) to))
      in case to' of
           None \<Rightarrow> Inl ''Invalid time value''
         | Some u \<Rightarrow> Inr (split_T_0 (toISOString u)))"

text \<open>Lines 57-79: the request that the try block builds, or the message of what it throws.\<close>

definition build_request :: "env \<Rightarrow> string \<Rightarrow> string option \<Rightarrow> string option \<Rightarrow> string + request" where
  "build_request e tok dateFrom dateTo =
     (case import_failure e of
        Some msg \<Rightarrow> Inl msg
      | None \<Rightarrow>
          if truthy dateFrom \<and> new_Date e (str_of dateFrom) = None
          then Inl ''Invalid dateFrom format''
          else
            (case (if truthy dateFrom \<and> \<not> truthy dateTo
                   then map_sum id Some (default_dateTo e (str_of dateFrom))
                   else Inr dateTo) of
               Inl msg \<Rightarrow> Inl msg
             | Inr dateTo' \<Rightarrow>
                 if truthy dateTo' \<and> new_Date e (str_of dateTo') = None
                 then Inl ''Invalid dateTo format''
                 else Inr \<lparr> auth_token = tok,
                            query = (if truthy dateFrom then [(''dateFrom'', str_of dateFrom)] else []) @
                                    (if truthy dateTo' then [(''dateTo'', str_of dateTo')] else []) \<rparr>))"

definition allowed_status :: "string list" where
  "allowed_status = [''SCHEDULED'', ''LIVE'', ''IN_PLAY'', ''PAUSED'']"

text \<open>
  \<^verbatim>\<open>['SCHEDULED', 'LIVE', 'IN_PLAY', 'PAUSED'].includes(m.status)\<close>; \<^verbatim>\<open>includes\<close> compares
  without coercion, so only a string value can be included.
\<close>

definition status_included :: "json \<Rightarrow> string + bool" where
  "status_included m =
     (case get_prop m ''status'' of
        Inl msg \<Rightarrow> Inl msg
      | Inr v \<Rightarrow> Inr (case v of Some (JStr s) \<Rightarrow> s \<in> set allowed_status | _ \<Rightarrow> False))"

fun filter_matches :: "json list \<Rightarrow> string + json list" where
  "filter_matches [] = Inr []"
| "filter_matches (m # ms) =
     (case status_included m of
        Inl msg \<Rightarrow> Inl msg
      | Inr b \<Rightarrow>
          (case filter_matches ms of
             Inl msg \<Rightarrow> Inl msg
           | Inr r \<Rightarrow> Inr (if b then m # r else r)))"

text \<open>Lines 89-97: what the try block makes of a response.\<close>

definition read_response :: "http_response \<Rightarrow> string + match_query_result" where
  "read_response res =
     (if \<not> (200 \<le> status_code res \<and> status_code res \<le> 299)
      then Inl (''API Error '' @ decimal (status_code res) @ '': '' @
                (case body_text res of None \<Rightarrow> ''Unknown error'' | Some errText \<Rightarrow> errText))
      else
        (case body_json res of
           Inl msg \<Rightarrow> Inl msg
         | Inr data \<Rightarrow>
             (case get_prop data ''matches'' of
                Inl msg \<Rightarrow> Inl msg
              | Inr v \<Rightarrow>
                  (let ms = (case v of Some (JArr xs) \<Rightarrow> xs | _ \<Rightarrow> []) in
                   case filter_matches ms of
                     Inl msg \<Rightarrow> Inl msg
                   | Inr filtered \<Rightarrow>
                       Inr \<lparr> matches = filtered, count = length filtered,
                             totalAvailable = Some (length ms), error = None,
                             timestamp = None \<rparr>))))"

text \<open>
  The try block as a whole: its result or the message of the error it throws, and the
  outbound requests it issued.
\<close>

definition fetchMatches_try ::
  "env \<Rightarrow> string \<Rightarrow> string option \<Rightarrow> string option \<Rightarrow> (string + match_query_result) \<times> request list" where
  "fetchMatches_try e tok dateFrom dateTo =
     (case build_request e tok dateFrom dateTo of
        Inl msg \<Rightarrow> (Inl msg, [])
      | Inr req \<Rightarrow>
          (case upstream e req of
             Rejected msg \<Rightarrow> (Inl msg, [req])
           | Resolved res \<Rightarrow> (read_response res, [req])))"

text \<open>
  \<^verbatim>\<open>fetchMatches(dateFrom, dateTo)\<close>, lines 52-107. \<open>now\<close> is the clock reading of the catch
  block. The second component lists the outbound requests of the call.
\<close>

definition fetchMatches ::
  "env \<Rightarrow> int \<Rightarrow> string option \<Rightarrow> string option \<Rightarrow> match_query_result \<times> request list" where
  "fetchMatches e now dateFrom dateTo =
     (if \<not> truthy (FOOTBALL_API_TOKEN e)
      then (\<lparr> matches = [], count = 0, totalAvailable = None,
              error = Some ''API token missing'', timestamp = None \<rparr>, [])
      else
        (case fetchMatches_try e (str_of (FOOTBALL_API_TOKEN e)) dateFrom dateTo of
           (Inr r, reqs) \<Rightarrow> (r, reqs)
         | (Inl msg, reqs) \<Rightarrow>
             (\<lparr> matches = [], count = 0, totalAvailable = None,
                error = Some msg, timestamp = Some (toISOString now) \<rparr>, reqs)))"

text \<open>
  The status of a match: the string under \<^verbatim>\<open>status\<close> of a match
  object. A match is active when its status is one of the four retained ones.
\<close>

definition status_of :: "json \<Rightarrow> string option" where
  "status_of m =
     (case m of
        JObj kvs \<Rightarrow> (case map_of (rev kvs) ''status'' of Some (JStr s) \<Rightarrow> Some s | _ \<Rightarrow> None)
      | _ \<Rightarrow> None)"

definition active :: "json \<Rightarrow> bool" where
  "active m = (case status_of m of None \<Rightarrow> False | Some s \<Rightarrow> s \<in> set allowed_status)"

text \<open>A supplied (truthy) date string that \<^verbatim>\<open>new Date\<close> cannot parse.\<close>

definition unparsable :: "env \<Rightarrow> string option \<Rightarrow> bool" where
  "unparsable e d = (truthy d \<and> new_Date e (str_of d) = None)"

section \<open>Properties of fetchMatches\<close>

lemma filter_matches_length: "filter_matches ms = Inr r \<Longrightarrow> length r \<le> length ms"
  by (induction ms arbitrary: r) (auto split: sum.splits if_splits)

lemma read_response_count: "read_response res = Inr r \<Longrightarrow> count r = length (matches r)"
  by (auto simp: read_response_def Let_def split: if_splits sum.splits)

lemma fetchMatches_try_count:
  "fetchMatches_try e tok dateFrom dateTo = (Inr r, reqs) \<Longrightarrow> count r = length (matches r)"
  by (auto simp: fetchMatches_try_def read_response_count split: sum.splits fetch_outcome.splits)

lemma status_included_active:
  "m \<noteq> JNull \<Longrightarrow> status_included m = Inr (active m)"
  by (cases m)
     (auto simp: status_included_def get_prop_def active_def status_of_def
           split: option.splits json.splits)

lemma status_included_True:
  "status_included m = Inr True \<Longrightarrow> active m"
  by (cases m)
     (auto simp: status_included_def get_prop_def active_def status_of_def
           split: option.splits json.splits)

lemma filter_matches_filter:
  "JNull \<notin> set ms \<Longrightarrow> filter_matches ms = Inr (filter active ms)"
  by (induction ms) (auto simp: status_included_active)

lemma filter_matches_active:
  "filter_matches ms = Inr r \<Longrightarrow> m \<in> set r \<Longrightarrow> active m"
proof (induction ms arbitrary: r)
  case Nil
  then show ?case by simp
next
  case (Cons x xs)
  then show ?case
    by (auto split: sum.splits if_splits dest: status_included_True)
qed

lemma active_status:
  "active m \<Longrightarrow> \<exists>s. status_of m = Some s \<and> s \<in> {''SCHEDULED'', ''LIVE'', ''IN_PLAY'', ''PAUSED''}"
  by (auto simp: active_def allowed_status_def split: option.splits)

lemma read_response_array:
  assumes "200 \<le> status_code res" and "status_code res \<le> 299"
    and "body_json res = Inr (JObj kvs)"
    and "map_of (rev kvs) ''matches'' = Some (JArr ms)"
    and "JNull \<notin> set ms"
  shows "read_response res =
           Inr \<lparr> matches = filter active ms, count = length (filter active ms),
                 totalAvailable = Some (length ms), error = None, timestamp = None \<rparr>"
  using assms by (simp add: read_response_def get_prop_def filter_matches_filter)

lemma read_response_no_array:
  assumes "200 \<le> status_code res" and "status_code res \<le> 299"
    and "body_json res = Inr data" and "data \<noteq> JNull"
    and "\<forall>xs. get_prop data ''matches'' \<noteq> Inr (Some (JArr xs))"
  shows "read_response res =
           Inr \<lparr> matches = [], count = 0, totalAvailable = Some 0, error = None,
                 timestamp = None \<rparr>"
proof -
  obtain v where v: "get_prop data ''matches'' = Inr v"
    using assms(4) by (cases data) (simp_all add: get_prop_def)
  with assms(5) have "(case v of Some (JArr xs) \<Rightarrow> xs | _ \<Rightarrow> []) = []"
    by (auto split: option.splits json.splits)
  with v assms(1-3) show ?thesis
    by (simp add: read_response_def)
qed

text \<open>
  Environments and responses used to instantiate the theorems: the server in UTC, a
  parser that rejects everything outside the date-only format, and an upstream that
  answers every request alike.
\<close>

definition tz_utc :: timezone where
  "tz_utc = \<lparr> offsetAtUTC = (\<lambda>t. 0), offsetAtLocal = (\<lambda>t. 0) \<rparr>"

definition env_with :: "string option \<Rightarrow> fetch_outcome \<Rightarrow> env" where
  "env_with tok out =
     \<lparr> FOOTBALL_API_TOKEN = tok, import_failure = None, upstream = (\<lambda>r. out),
       zone = tz_utc, implParse = (\<lambda>s. None) \<rparr>"

definition response_200 :: "json \<Rightarrow> fetch_outcome" where
  "response_200 data = Resolved \<lparr> status_code = 200, body_text = Some [], body_json = Inr data \<rparr>"

definition a_match :: "string \<Rightarrow> json" where
  "a_match s = JObj [(''id'', JNum 1), (''status'', JStr s)]"

text \<open>
  C2: on every return path of fetchMatches (missing token, success, caught error) the
  count field of the result equals the length of its matches list.
\<close>

theorem fetchMatches_count_is_length:
  "count (fst (fetchMatches e now dateFrom dateTo)) =
     length (matches (fst (fetchMatches e now dateFrom dateTo)))"
proof (cases "fetchMatches_try e (str_of (FOOTBALL_API_TOKEN e)) dateFrom dateTo")
  case (Pair res reqs)
  then show ?thesis
    by (cases res) (auto simp: fetchMatches_def dest: fetchMatches_try_count)
qed

text \<open>
  C7: with no API token configured (the variable unset or empty), every call returns
  exactly \<open>{matches: [], count: 0, error: "API token missing"}\<close> and issues no outbound
  request.
\<close>

theorem fetchMatches_token_missing:
  assumes "FOOTBALL_API_TOKEN e = None \<or> FOOTBALL_API_TOKEN e = Some []"
  shows "fetchMatches e now dateFrom dateTo =
           (\<lparr> matches = [], count = 0, totalAvailable = None,
              error = Some ''API token missing'', timestamp = None \<rparr>, [])"
  using assms by (auto simp: fetchMatches_def truthy_def)

theorem fetchMatches_token_missing_witness:
  "FOOTBALL_API_TOKEN (env_with None (response_200 (JObj [(''matches'', JArr [a_match ''LIVE''])]))) = None \<and>
   fetchMatches (env_with None (response_200 (JObj [(''matches'', JArr [a_match ''LIVE''])]))) 0
       (Some ''2024-01-01'') (Some ''2024-01-02'') =
     (\<lparr> matches = [], count = 0, totalAvailable = None,
        error = Some ''API token missing'', timestamp = None \<rparr>, [])"
  using fetchMatches_token_missing
    [of "env_with None (response_200 (JObj [(''matches'', JArr [a_match ''LIVE''])]))" 0
        "Some ''2024-01-01''" "Some ''2024-01-02''"]
  by (simp add: env_with_def)

text \<open>
  C1: for a call with a token, valid dates and a 2xx response whose body is an object
  with a \<^verbatim>\<open>matches\<close> array (of non-null entries), the result holds exactly the upstream
  matches whose status is SCHEDULED, LIVE, IN_PLAY or PAUSED, in upstream order; no match
  with another status appears; and totalAvailable is the length of the upstream list
  before filtering.
\<close>

theorem fetchMatches_only_active:
  assumes "truthy (FOOTBALL_API_TOKEN e)"
    and "build_request e (str_of (FOOTBALL_API_TOKEN e)) dateFrom dateTo = Inr req"
    and "upstream e req = Resolved res"
    and "200 \<le> status_code res" and "status_code res \<le> 299"
    and "body_json res = Inr (JObj kvs)"
    and "map_of (rev kvs) ''matches'' = Some (JArr ms)"
    and "JNull \<notin> set ms"
  shows "fetchMatches e now dateFrom dateTo =
           (\<lparr> matches = filter active ms, count = length (filter active ms),
               totalAvailable = Some (length ms), error = None, timestamp = None \<rparr>, [req]) \<and>
         (\<forall>m \<in> set (matches (fst (fetchMatches e now dateFrom dateTo))).
            \<exists>s. status_of m = Some s \<and> s \<in> {''SCHEDULED'', ''LIVE'', ''IN_PLAY'', ''PAUSED''})"
proof -
  have r: "read_response res =
           Inr \<lparr> matches = filter active ms, count = length (filter active ms),
                 totalAvailable = Some (length ms), error = None, timestamp = None \<rparr>"
    using assms(4-8) by (rule read_response_array)
  have f: "fetchMatches e now dateFrom dateTo =
           (\<lparr> matches = filter active ms, count = length (filter active ms),
               totalAvailable = Some (length ms), error = None, timestamp = None \<rparr>, [req])"
    using assms(1-3) r by (simp add: fetchMatches_def fetchMatches_try_def)
  show ?thesis
    unfolding f using active_status by simp
qed

theorem fetchMatches_only_active_witness:
  "fetchMatches
     (env_with (Some ''tok'')
        (response_200 (JObj [(''matches'', JArr [a_match ''LIVE'', a_match ''FINISHED''])])))
     0 (Some ''2024-01-01'') (Some ''2024-01-02'') =
   (\<lparr> matches = [a_match ''LIVE''], count = 1, totalAvailable = Some 2, error = None,
       timestamp = None \<rparr>,
    [\<lparr> auth_token = ''tok'',
       query = [(''dateFrom'', ''2024-01-01''), (''dateTo'', ''2024-01-02'')] \<rparr>])"
proof -
  let ?body = "JObj [(''matches'', JArr [a_match ''LIVE'', a_match ''FINISHED''])]"
  let ?e = "env_with (Some ''tok'') (response_200 ?body)"
  let ?req = "\<lparr> auth_token = ''tok'',
       query = [(''dateFrom'', ''2024-01-01''), (''dateTo'', ''2024-01-02'')] \<rparr>"
  let ?res = "\<lparr> status_code = 200, body_text = Some [], body_json = Inr ?body \<rparr>"
  have h1: "truthy (FOOTBALL_API_TOKEN ?e)" by code_simp
  have h2: "build_request ?e (str_of (FOOTBALL_API_TOKEN ?e)) (Some ''2024-01-01'')
              (Some ''2024-01-02'') = Inr ?req" by code_simp
  have h3: "upstream ?e ?req = Resolved ?res" by (simp add: env_with_def response_200_def)
  have h4: "200 \<le> status_code ?res" "status_code ?res \<le> 299" by simp_all
  have h5: "body_json ?res = Inr (JObj [(''matches'', JArr [a_match ''LIVE'', a_match ''FINISHED''])])"
    by simp
  have h6: "map_of (rev [(''matches'', JArr [a_match ''LIVE'', a_match ''FINISHED''])]) ''matches''
              = Some (JArr [a_match ''LIVE'', a_match ''FINISHED''])" by simp
  have h7: "JNull \<notin> set [a_match ''LIVE'', a_match ''FINISHED'']" by (simp add: a_match_def)
  have a: "filter active [a_match ''LIVE'', a_match ''FINISHED''] = [a_match ''LIVE'']"
    by (simp add: active_def status_of_def a_match_def allowed_status_def)
  have "fetchMatches ?e 0 (Some ''2024-01-01'') (Some ''2024-01-02'') =
      (\<lparr> matches = filter active [a_match ''LIVE'', a_match ''FINISHED''],
          count = length (filter active [a_match ''LIVE'', a_match ''FINISHED'']),
          totalAvailable = Some (length [a_match ''LIVE'', a_match ''FINISHED'']),
          error = None, timestamp = None \<rparr>, [?req])"
    using fetchMatches_only_active [OF h1 h2 h3 h4 h5 h6 h7, of 0] by (rule conjunct1)
  then show ?thesis unfolding a by simp
qed

text \<open>
  C10, as stated: a 2xx response whose JSON body has no \<^verbatim>\<open>matches\<close> member, or one that
  is not an array, yields the success-shaped result with no error. Not for the body
  \<^verbatim>\<open>null\<close>: it has no \<^verbatim>\<open>matches\<close> member, but reading \<^verbatim>\<open>data.matches\<close> throws a TypeError,
  and the catch block returns an errored result (the message is the one Node.js gives).
\<close>

theorem fetchMatches_null_body_counterexample:
  "fetchMatches (env_with (Some ''tok'') (response_200 JNull)) 0
       (Some ''2024-01-01'') (Some ''2024-01-02'') =
   (\<lparr> matches = [], count = 0, totalAvailable = None,
       error = Some (''Cannot read properties of null (reading '' @ [CHR 0x27] @ ''matches'' @
                     [CHR 0x27] @ '')''),
       timestamp = Some ''1970-01-01T00:00:00.000Z'' \<rparr>,
    [\<lparr> auth_token = ''tok'',
       query = [(''dateFrom'', ''2024-01-01''), (''dateTo'', ''2024-01-02'')] \<rparr>])"
  by code_simp

text \<open>
  C10, amended: a 2xx response whose JSON body is not \<^verbatim>\<open>null\<close> (an object, an array, a
  string, a number or a boolean) and has no \<^verbatim>\<open>matches\<close> member, or one that is not an
  array, yields the success-shaped result \<open>{matches: [], count: 0, totalAvailable: 0}\<close>
  with no error field.
\<close>

theorem fetchMatches_malformed_body_empty_success:
  assumes "truthy (FOOTBALL_API_TOKEN e)"
    and "build_request e (str_of (FOOTBALL_API_TOKEN e)) dateFrom dateTo = Inr req"
    and "upstream e req = Resolved res"
    and "200 \<le> status_code res" and "status_code res \<le> 299"
    and "body_json res = Inr data" and "data \<noteq> JNull"
    and "\<forall>xs. get_prop data ''matches'' \<noteq> Inr (Some (JArr xs))"
  shows "fetchMatches e now dateFrom dateTo =
           (\<lparr> matches = [], count = 0, totalAvailable = Some 0, error = None,
               timestamp = None \<rparr>, [req])"
proof -
  have "read_response res =
           Inr \<lparr> matches = [], count = 0, totalAvailable = Some 0, error = None,
                 timestamp = None \<rparr>"
    using assms(4-8) by (rule read_response_no_array)
  with assms(1-3) show ?thesis
    by (simp add: fetchMatches_def fetchMatches_try_def)
qed

theorem fetchMatches_malformed_body_empty_success_witness:
  "fetchMatches
     (env_with (Some ''tok'') (response_200 (JObj [(''matches'', JStr ''none'')])))
     0 (Some ''2024-01-01'') (Some ''2024-01-02'') =
   (\<lparr> matches = [], count = 0, totalAvailable = Some 0, error = None, timestamp = None \<rparr>,
    [\<lparr> auth_token = ''tok'',
       query = [(''dateFrom'', ''2024-01-01''), (''dateTo'', ''2024-01-02'')] \<rparr>])"
proof -
  let ?body = "JObj [(''matches'', JStr ''none'')]"
  let ?e = "env_with (Some ''tok'') (response_200 ?body)"
  let ?req = "\<lparr> auth_token = ''tok'',
       query = [(''dateFrom'', ''2024-01-01''), (''dateTo'', ''2024-01-02'')] \<rparr>"
  let ?res = "\<lparr> status_code = 200, body_text = Some [], body_json = Inr ?body \<rparr>"
  have h1: "truthy (FOOTBALL_API_TOKEN ?e)" by code_simp
  have h2: "build_request ?e (str_of (FOOTBALL_API_TOKEN ?e)) (Some ''2024-01-01'')
              (Some ''2024-01-02'') = Inr ?req" by code_simp
  have h3: "upstream ?e ?req = Resolved ?res" by (simp add: env_with_def response_200_def)
  have h4: "200 \<le> status_code ?res" "status_code ?res \<le> 299" by simp_all
  have h5: "body_json ?res = Inr ?body" by simp
  have h6: "?body \<noteq> JNull" by simp
  have h7: "\<forall>xs. get_prop ?body ''matches'' \<noteq> Inr (Some (JArr xs))"
    by (simp add: get_prop_def)
  show ?thesis
    using fetchMatches_malformed_body_empty_success [OF h1 h2 h3 h4 h5 h6 h7, of 0] .
qed

text \<open>
  What Node.js makes of a string in the shape YYYY-MM-DD that names no calendar date:
  its parser accepts any day from 01 to 31 and lets \<^verbatim>\<open>MakeDay\<close> carry the overflow into
  the next month, so that \<^verbatim>\<open>new Date('2024-02-30')\<close> is 1 March 2024. Strings of another
  shape are not covered here and count as rejected.
\<close>

definition node_day_overflow :: "string \<Rightarrow> int option" where
  "node_day_overflow s =
     (if length s = 10 \<and> s ! 4 = CHR ''-'' \<and> s ! 7 = CHR ''-'' then
        (case digits_val (take 4 s) of
           None \<Rightarrow> None
         | Some y \<Rightarrow>
             (case digits_val (take 2 (drop 5 s)) of
                None \<Rightarrow> None
              | Some m \<Rightarrow>
                  (case digits_val (drop 8 s) of
                     None \<Rightarrow> None
                   | Some d \<Rightarrow>
                       if 1 \<le> m \<and> m \<le> 12 \<and> 1 \<le> d \<and> d \<le> 31
                       then Some (MakeDate (MakeDay (int y) (int m - 1) (int d)) 0)
                       else None)))
      else None)"

definition env_node :: env where
  "env_node =
     \<lparr> FOOTBALL_API_TOKEN = Some ''tok'', import_failure = None,
       upstream = (\<lambda>r. response_200 (JObj [(''matches'', JArr [])])),
       zone = tz_utc, implParse = node_day_overflow \<rparr>"

text \<open>
  C8, as stated: every supplied date string that fails to parse as a calendar date makes
  fetchMatches fail with an invalid-date error and issue no outbound request. The code
  asks \<^verbatim>\<open>new Date\<close> only, and only after the token: \<^verbatim>\<open>2024-02-30\<close> names no calendar date,
  yet Node.js reads it as 1 March 2024 and the request goes out with
  \<open>dateFrom=2024-02-30\<close>; and without a token the unparsable \<^verbatim>\<open>not-a-date\<close> is answered
  with \<open>API token missing\<close>.
\<close>

theorem invalid_calendar_date_counterexample:
  "parse_iso_date ''2024-02-30'' = None \<and>
   new_Date env_node ''2024-02-30'' = Some 1709251200000 \<and>
   fetchMatches env_node 0 (Some ''2024-02-30'') (Some ''2024-03-05'') =
     (\<lparr> matches = [], count = 0, totalAvailable = Some 0, error = None, timestamp = None \<rparr>,
      [\<lparr> auth_token = ''tok'',
         query = [(''dateFrom'', ''2024-02-30''), (''dateTo'', ''2024-03-05'')] \<rparr>]) \<and>
   fetchMatches (env_with None (response_200 (JObj [(''matches'', JArr [])]))) 0
       (Some ''not-a-date'') None =
     (\<lparr> matches = [], count = 0, totalAvailable = None, error = Some ''API token missing'',
         timestamp = None \<rparr>, [])"
proof -
  have "parse_iso_date ''2024-02-30'' = None" by code_simp
  moreover have "new_Date env_node ''2024-02-30'' = Some 1709251200000" by code_simp
  moreover have "fetchMatches env_node 0 (Some ''2024-02-30'') (Some ''2024-03-05'') =
     (\<lparr> matches = [], count = 0, totalAvailable = Some 0, error = None, timestamp = None \<rparr>,
      [\<lparr> auth_token = ''tok'',
         query = [(''dateFrom'', ''2024-02-30''), (''dateTo'', ''2024-03-05'')] \<rparr>])"
    by code_simp
  moreover have "fetchMatches (env_with None (response_200 (JObj [(''matches'', JArr [])]))) 0
       (Some ''not-a-date'') None =
     (\<lparr> matches = [], count = 0, totalAvailable = None, error = Some ''API token missing'',
         timestamp = None \<rparr>, [])"
    by code_simp
  ultimately show ?thesis by simp
qed

text \<open>
  C8, amended: for every supplied (non-empty) date string, dateFrom or dateTo, that
  \<^verbatim>\<open>new Date\<close> cannot parse, fetchMatches issues no outbound request and returns a result
  with no matches, count 0 and an error. With a token configured and node-fetch loaded,
  the error is \<open>Invalid dateFrom format\<close> or \<open>Invalid dateTo format\<close>, with the catch
  block's timestamp; otherwise it is the message of the earlier failure (\<open>API token
  missing\<close>, or the message of the failed import).
\<close>

theorem fetchMatches_unparsable_date:
  assumes "unparsable e dateFrom \<or> unparsable e dateTo"
  shows "fetchMatches e now dateFrom dateTo =
           (\<lparr> matches = [], count = 0, totalAvailable = None,
               error = Some (if \<not> truthy (FOOTBALL_API_TOKEN e) then ''API token missing''
                             else case import_failure e of
                                    Some msg \<Rightarrow> msg
                                  | None \<Rightarrow>
                                      if unparsable e dateFrom then ''Invalid dateFrom format''
                                      else ''Invalid dateTo format''),
               timestamp = (if truthy (FOOTBALL_API_TOKEN e) then Some (toISOString now)
                            else None) \<rparr>, [])"
proof (cases "truthy (FOOTBALL_API_TOKEN e)")
  case False
  then show ?thesis by (simp add: fetchMatches_def)
next
  case tok: True
  show ?thesis
  proof (cases "import_failure e")
    case (Some msg)
    then have "build_request e (str_of (FOOTBALL_API_TOKEN e)) dateFrom dateTo = Inl msg"
      by (simp add: build_request_def)
    with tok Some show ?thesis
      by (simp add: fetchMatches_def fetchMatches_try_def)
  next
    case None
    show ?thesis
    proof (cases "unparsable e dateFrom")
      case True
      then have "build_request e (str_of (FOOTBALL_API_TOKEN e)) dateFrom dateTo =
          Inl ''Invalid dateFrom format''"
        using None by (simp add: build_request_def unparsable_def)
      with True tok None show ?thesis
        by (simp add: fetchMatches_def fetchMatches_try_def)
    next
      case False
      with assms have t: "truthy dateTo" "new_Date e (str_of dateTo) = None"
        by (auto simp: unparsable_def)
      from False have "\<not> (truthy dateFrom \<and> new_Date e (str_of dateFrom) = None)"
        by (simp add: unparsable_def)
      then have "build_request e (str_of (FOOTBALL_API_TOKEN e)) dateFrom dateTo =
          Inl ''Invalid dateTo format''"
        using None t by (auto simp: build_request_def)
      with False tok None show ?thesis
        by (simp add: fetchMatches_def fetchMatches_try_def)
    qed
  qed
qed

theorem fetchMatches_unparsable_date_witness:
  "fetchMatches env_node 1704067200000 (Some ''not-a-date'') None =
   (\<lparr> matches = [], count = 0, totalAvailable = None,
       error = Some ''Invalid dateFrom format'',
       timestamp = Some ''2024-01-01T00:00:00.000Z'' \<rparr>, [])"
proof -
  have h: "unparsable env_node (Some ''not-a-date'') \<or> unparsable env_node None" by code_simp
  have k: "truthy (FOOTBALL_API_TOKEN env_node)" "import_failure env_node = None"
    "unparsable env_node (Some ''not-a-date'')" by code_simp+
  have t: "toISOString 1704067200000 = ''2024-01-01T00:00:00.000Z''" by code_simp
  show ?thesis
    using fetchMatches_unparsable_date [OF h, of 1704067200000] by (simp add: k t)
qed

section \<open>The cache\<close>

text \<open>
  Modelled from the spec: the cache is an instance of the node-cache library, whose code
  is not among the sources; \<open>cache.get\<close>, \<open>cache.set\<close> and \<open>cache.flushAll\<close> follow the
  spec's data model. A CacheEntry is \<open>{value, storedAt, ttlSeconds}\<close> and is readable only
  while \<open>now < storedAt + ttlSeconds\<close>; the read-time check is authoritative, whether or
  not a background sweep has removed the expired entry. Instants are in milliseconds.
\<close>

record cache_entry =
  stored :: match_query_result
  storedAt :: int
  ttlSeconds :: int

type_synonym cache = "string \<Rightarrow> cache_entry option"

text \<open>Modelled from the spec: an entry is readable only while \<open>now < storedAt + ttlSeconds\<close>.\<close>

definition readable :: "cache_entry \<Rightarrow> int \<Rightarrow> bool" where
  "readable en now = (now < storedAt en + ttlSeconds en * 1000)"

text \<open>
  Modelled from the spec: \<^verbatim>\<open>cache.get(key)\<close> of node-cache, read at the instant \<open>now\<close>; an
  entry past its TTL is treated as absent.
\<close>

definition cache_get :: "cache \<Rightarrow> string \<Rightarrow> int \<Rightarrow> match_query_result option" where
  "cache_get c key now =
     (case c key of
        None \<Rightarrow> None
      | Some en \<Rightarrow> if readable en now then Some (stored en) else None)"

text \<open>
  Modelled from the spec: \<^verbatim>\<open>cache.set(key, v, ttl)\<close> of node-cache at the instant \<open>now\<close>; the
  new entry replaces the one under the same key.
\<close>

definition cache_set :: "cache \<Rightarrow> string \<Rightarrow> match_query_result \<Rightarrow> int \<Rightarrow> int \<Rightarrow> cache" where
  "cache_set c key v ttl now = c(key \<mapsto> \<lparr> stored = v, storedAt = now, ttlSeconds = ttl \<rparr>)"

text \<open>Modelled from the spec: \<^verbatim>\<open>cache.flushAll()\<close> of node-cache, called on shutdown.\<close>

definition flushAll :: "cache \<Rightarrow> cache" where
  "flushAll c = Map.empty"

section \<open>The route handlers\<close>

text \<open>
  \<^verbatim>\<open>getDateString(offset)\<close>, lines 45-49, at the clock reading \<open>now\<close>; \<open>None\<close> when
  \<^verbatim>\<open>toISOString\<close> throws its RangeError.
\<close>

definition getDateString :: "timezone \<Rightarrow> int \<Rightarrow> int \<Rightarrow> string option" where
  "getDateString z now offset =
     (let d = Some now;
          d' = setDate z d (map_option (\<lambda>x. x + offset) (getDate z d))
      in case d' of None \<Rightarrow> None | Some u \<Rightarrow> Some (split_T_0 (toISOString u)))"

text \<open>
  A handler reads the clock several times while it serves one request; the readings
  are, in program order: the two calls of \<^verbatim>\<open>getDateString\<close>, \<^verbatim>\<open>cache.get\<close>, the catch block
  of fetchMatches, \<^verbatim>\<open>cache.set\<close> and the time stamp of the response.
\<close>

record clock =
  t_today :: int
  t_tomorrow :: int
  t_get :: int
  t_catch :: int
  t_set :: int
  t_send :: int

text \<open>What a handler does besides answering: calls of fetchMatches, outbound requests, \<^verbatim>\<open>cache.set\<close>.\<close>

datatype event =
    Loader "string option" "string option"
  | Outbound request
  | CacheSet string int

text \<open>
  The JSON body of a response: the fields of the MatchQueryResult that the handler
  spreads into it, and the fields it adds.
\<close>

record response_body =
  payload :: match_query_result
  cached :: "bool option"
  cacheTime :: "string option"
  fetchTime :: "string option"

datatype outcome = Sent nat response_body | Thrown string

definition handle_today :: "env \<Rightarrow> clock \<Rightarrow> cache \<Rightarrow> outcome \<times> cache \<times> event list" where
  "handle_today e clk c =
     (case getDateString (zone e) (t_today clk) 0 of
        None \<Rightarrow> (Thrown ''Invalid time value'', c, [])
      | Some today \<Rightarrow>
     (case getDateString (zone e) (t_tomorrow clk) 1 of
        None \<Rightarrow> (Thrown ''Invalid time value'', c, [])
      | Some tomorrow \<Rightarrow>
     (let cacheKey = ''matches_today_'' @ today in
      case cache_get c cacheKey (t_get clk) of
        Some hit \<Rightarrow>
          (Sent 200 \<lparr> payload = hit, cached = Some True,
                      cacheTime = Some (toISOString (t_send clk)), fetchTime = None \<rparr>, c, [])
      | None \<Rightarrow>
          (case fetchMatches e (t_catch clk) (Some today) (Some tomorrow) of
             (data, reqs) \<Rightarrow>
               if truthy (error data)
               then (Sent 503 \<lparr> payload = data \<lparr> error := Some ''Service temporarily unavailable'' \<rparr>,
                                cached = None, cacheTime = None, fetchTime = None \<rparr>, c,
                     Loader (Some today) (Some tomorrow) # map Outbound reqs)
               else (Sent 200 \<lparr> payload = data, cached = Some False, cacheTime = None,
                                fetchTime = Some (toISOString (t_send clk)) \<rparr>,
                     cache_set c cacheKey data 1800 (t_set clk),
                     Loader (Some today) (Some tomorrow) # map Outbound reqs @
                       [CacheSet cacheKey 1800])))))"

definition handle_upcoming :: "env \<Rightarrow> clock \<Rightarrow> cache \<Rightarrow> outcome \<times> cache \<times> event list" where
  "handle_upcoming e clk c =
     (case getDateString (zone e) (t_tomorrow clk) 1 of
        None \<Rightarrow> (Thrown ''Invalid time value'', c, [])
      | Some tomorrow \<Rightarrow>
     (let cacheKey = ''matches_upcoming_from_'' @ tomorrow in
      case cache_get c cacheKey (t_get clk) of
        Some hit \<Rightarrow>
          (Sent 200 \<lparr> payload = hit, cached = Some True,
                      cacheTime = Some (toISOString (t_send clk)), fetchTime = None \<rparr>, c, [])
      | None \<Rightarrow>
          (case fetchMatches e (t_catch clk) (Some tomorrow) None of
             (data, reqs) \<Rightarrow>
               if truthy (error data)
               then (Sent 503 \<lparr> payload = data \<lparr> error := Some ''Service temporarily unavailable'' \<rparr>,
                                cached = None, cacheTime = None, fetchTime = None \<rparr>, c,
                     Loader (Some tomorrow) None # map Outbound reqs)
               else (Sent 200 \<lparr> payload = data, cached = Some False, cacheTime = None,
                                fetchTime = Some (toISOString (t_send clk)) \<rparr>,
                     cache_set c cacheKey data 300 (t_set clk),
                     Loader (Some tomorrow) None # map Outbound reqs @
                       [CacheSet cacheKey 300]))))"

text \<open>
  The two match routes, and what a request to each derives from the clock before it
  looks into the cache: the cache key, the TTL and the arguments for fetchMatches
  (\<open>None\<close> when \<^verbatim>\<open>getDateString\<close> throws).
\<close>

datatype route = Today | Upcoming

definition handle :: "route \<Rightarrow> env \<Rightarrow> clock \<Rightarrow> cache \<Rightarrow> outcome \<times> cache \<times> event list" where
  "handle r = (case r of Today \<Rightarrow> handle_today | Upcoming \<Rightarrow> handle_upcoming)"

definition route_plan ::
  "route \<Rightarrow> timezone \<Rightarrow> clock \<Rightarrow> (string \<times> int \<times> string option \<times> string option) option" where
  "route_plan r z clk =
     (case r of
        Today \<Rightarrow>
          (case getDateString z (t_today clk) 0 of
             None \<Rightarrow> None
           | Some today \<Rightarrow>
               (case getDateString z (t_tomorrow clk) 1 of
                  None \<Rightarrow> None
                | Some tomorrow \<Rightarrow>
                    Some (''matches_today_'' @ today, 1800, Some today, Some tomorrow)))
      | Upcoming \<Rightarrow>
          (case getDateString z (t_tomorrow clk) 1 of
             None \<Rightarrow> None
           | Some tomorrow \<Rightarrow>
               Some (''matches_upcoming_from_'' @ tomorrow, 300, Some tomorrow, None)))"

text \<open>The part the two handlers have in common, from the cache lookup on.\<close>

definition serve ::
  "env \<Rightarrow> clock \<Rightarrow> cache \<Rightarrow> string \<Rightarrow> int \<Rightarrow> string option \<Rightarrow> string option \<Rightarrow>
     outcome \<times> cache \<times> event list" where
  "serve e clk c cacheKey ttl a b =
     (case cache_get c cacheKey (t_get clk) of
        Some hit \<Rightarrow>
          (Sent 200 \<lparr> payload = hit, cached = Some True,
                      cacheTime = Some (toISOString (t_send clk)), fetchTime = None \<rparr>, c, [])
      | None \<Rightarrow>
          (case fetchMatches e (t_catch clk) a b of
             (data, reqs) \<Rightarrow>
               if truthy (error data)
               then (Sent 503 \<lparr> payload = data \<lparr> error := Some ''Service temporarily unavailable'' \<rparr>,
                                cached = None, cacheTime = None, fetchTime = None \<rparr>, c,
                     Loader a b # map Outbound reqs)
               else (Sent 200 \<lparr> payload = data, cached = Some False, cacheTime = None,
                                fetchTime = Some (toISOString (t_send clk)) \<rparr>,
                     cache_set c cacheKey data ttl (t_set clk),
                     Loader a b # map Outbound reqs @ [CacheSet cacheKey ttl])))"

lemma handle_serve:
  assumes "route_plan r (zone e) clk = Some (key, ttl, a, b)"
  shows "handle r e clk c = serve e clk c key ttl a b"
proof (cases r)
  case Today
  with assms obtain today tomorrow where
    g: "getDateString (zone e) (t_today clk) 0 = Some today"
       "getDateString (zone e) (t_tomorrow clk) 1 = Some tomorrow"
    and k: "key = ''matches_today_'' @ today" "ttl = 1800" "a = Some today" "b = Some tomorrow"
    by (auto simp: route_plan_def split: option.splits)
  show ?thesis
    unfolding Today k by (simp add: handle_def handle_today_def serve_def g Let_def)
next
  case Upcoming
  with assms obtain tomorrow where
    g: "getDateString (zone e) (t_tomorrow clk) 1 = Some tomorrow"
    and k: "key = ''matches_upcoming_from_'' @ tomorrow" "ttl = 300" "a = Some tomorrow" "b = None"
    by (auto simp: route_plan_def split: option.splits)
  show ?thesis
    unfolding Upcoming k by (simp add: handle_def handle_upcoming_def serve_def g Let_def)
qed

lemma handle_hit:
  assumes "route_plan r (zone e) clk = Some (key, ttl, a, b)"
    and "cache_get c key (t_get clk) = Some hit"
  shows "handle r e clk c =
           (Sent 200 \<lparr> payload = hit, cached = Some True,
                       cacheTime = Some (toISOString (t_send clk)), fetchTime = None \<rparr>, c, [])"
  using assms(2) by (simp add: handle_serve [OF assms(1)] serve_def)

lemma handle_miss_error:
  assumes "route_plan r (zone e) clk = Some (key, ttl, a, b)"
    and "cache_get c key (t_get clk) = None"
    and "fetchMatches e (t_catch clk) a b = (data, reqs)"
    and "truthy (error data)"
  shows "handle r e clk c =
           (Sent 503 \<lparr> payload = data \<lparr> error := Some ''Service temporarily unavailable'' \<rparr>,
                       cached = None, cacheTime = None, fetchTime = None \<rparr>, c,
            Loader a b # map Outbound reqs)"
  using assms(2-4) by (simp add: handle_serve [OF assms(1)] serve_def)

lemma handle_miss_ok:
  assumes "route_plan r (zone e) clk = Some (key, ttl, a, b)"
    and "cache_get c key (t_get clk) = None"
    and "fetchMatches e (t_catch clk) a b = (data, reqs)"
    and "\<not> truthy (error data)"
  shows "handle r e clk c =
           (Sent 200 \<lparr> payload = data, cached = Some False, cacheTime = None,
                       fetchTime = Some (toISOString (t_send clk)) \<rparr>,
            cache_set c key data ttl (t_set clk),
            Loader a b # map Outbound reqs @ [CacheSet key ttl])"
  using assms(2-4) by (simp add: handle_serve [OF assms(1)] serve_def)

lemma cache_get_stays_None:
  "cache_get c key t = None \<Longrightarrow> t \<le> t' \<Longrightarrow> cache_get c key t' = None"
  by (auto simp: cache_get_def readable_def split: option.splits if_splits)

text \<open>Clock readings that are all the same instant, and a result to store.\<close>

definition clock_at :: "int \<Rightarrow> clock" where
  "clock_at t = \<lparr> t_today = t, t_tomorrow = t, t_get = t, t_catch = t, t_set = t, t_send = t \<rparr>"

definition ok_result :: match_query_result where
  "ok_result = \<lparr> matches = [a_match ''LIVE''], count = 1, totalAvailable = Some 2,
                 error = None, timestamp = None \<rparr>"

text \<open>
  C3: a result that carries a non-empty error is never written into the cache. For
  either route, when the lookup misses and fetchMatches returns such a result, the
  handler answers 503, performs no \<open>cache.set\<close> and leaves the cache as it was; a second
  request for the same key, not earlier than the first and with fetchMatches failing
  again, therefore misses again and calls fetchMatches again.
\<close>

theorem errored_result_not_cached:
  assumes "route_plan r (zone e1) clk1 = Some (key, ttl, a1, b1)"
    and "route_plan r (zone e2) clk2 = Some (key, ttl, a2, b2)"
    and "t_get clk1 \<le> t_get clk2"
    and "cache_get c key (t_get clk1) = None"
    and "fetchMatches e1 (t_catch clk1) a1 b1 = (d1, reqs1)"
    and "error d1 = Some m1" and "m1 \<noteq> []"
    and "fetchMatches e2 (t_catch clk2) a2 b2 = (d2, reqs2)"
    and "error d2 = Some m2" and "m2 \<noteq> []"
  shows "handle r e1 clk1 c =
           (Sent 503 \<lparr> payload = d1 \<lparr> error := Some ''Service temporarily unavailable'' \<rparr>,
                       cached = None, cacheTime = None, fetchTime = None \<rparr>, c,
            Loader a1 b1 # map Outbound reqs1) \<and>
         handle r e2 clk2 (fst (snd (handle r e1 clk1 c))) =
           (Sent 503 \<lparr> payload = d2 \<lparr> error := Some ''Service temporarily unavailable'' \<rparr>,
                       cached = None, cacheTime = None, fetchTime = None \<rparr>, c,
            Loader a2 b2 # map Outbound reqs2)"
proof -
  have t1: "truthy (error d1)" and t2: "truthy (error d2)"
    using assms(6,7,9,10) by (simp_all add: truthy_def)
  have first: "handle r e1 clk1 c =
           (Sent 503 \<lparr> payload = d1 \<lparr> error := Some ''Service temporarily unavailable'' \<rparr>,
                       cached = None, cacheTime = None, fetchTime = None \<rparr>, c,
            Loader a1 b1 # map Outbound reqs1)"
    using assms(1,4,5) t1 by (rule handle_miss_error)
  have miss2: "cache_get c key (t_get clk2) = None"
    using assms(4,3) by (rule cache_get_stays_None)
  have "handle r e2 clk2 c =
           (Sent 503 \<lparr> payload = d2 \<lparr> error := Some ''Service temporarily unavailable'' \<rparr>,
                       cached = None, cacheTime = None, fetchTime = None \<rparr>, c,
            Loader a2 b2 # map Outbound reqs2)"
    using assms(2) miss2 assms(8) t2 by (rule handle_miss_error)
  with first show ?thesis by simp
qed

theorem errored_result_not_cached_witness:
  "handle Today (env_with (Some ''tok'') (Rejected ''network down'')) (clock_at 1704110400000)
       Map.empty =
     (Sent 503 \<lparr> payload = \<lparr> matches = [], count = 0, totalAvailable = None,
                               error = Some ''Service temporarily unavailable'',
                               timestamp = Some ''2024-01-01T12:00:00.000Z'' \<rparr>,
                 cached = None, cacheTime = None, fetchTime = None \<rparr>,
      Map.empty,
      [Loader (Some ''2024-01-01'') (Some ''2024-01-02''),
       Outbound \<lparr> auth_token = ''tok'',
                  query = [(''dateFrom'', ''2024-01-01''), (''dateTo'', ''2024-01-02'')] \<rparr>]) \<and>
   snd (handle Today (env_with (Some ''tok'') (Rejected ''network down'')) (clock_at 1704110460000)
       (fst (snd (handle Today (env_with (Some ''tok'') (Rejected ''network down''))
                    (clock_at 1704110400000) Map.empty)))) =
     (Map.empty,
      [Loader (Some ''2024-01-01'') (Some ''2024-01-02''),
       Outbound \<lparr> auth_token = ''tok'',
                  query = [(''dateFrom'', ''2024-01-01''), (''dateTo'', ''2024-01-02'')] \<rparr>])"
proof -
  let ?e = "env_with (Some ''tok'') (Rejected ''network down'')"
  let ?req = "\<lparr> auth_token = ''tok'',
                  query = [(''dateFrom'', ''2024-01-01''), (''dateTo'', ''2024-01-02'')] \<rparr>"
  have p1: "route_plan Today (zone ?e) (clock_at 1704110400000) =
      Some (''matches_today_2024-01-01'', 1800, Some ''2024-01-01'', Some ''2024-01-02'')"
    by code_simp
  have p2: "route_plan Today (zone ?e) (clock_at 1704110460000) =
      Some (''matches_today_2024-01-01'', 1800, Some ''2024-01-01'', Some ''2024-01-02'')"
    by code_simp
  have o: "t_get (clock_at 1704110400000) \<le> t_get (clock_at 1704110460000)"
    by (simp add: clock_at_def)
  have m: "cache_get Map.empty ''matches_today_2024-01-01'' (t_get (clock_at 1704110400000)) = None"
    by (simp add: cache_get_def)
  have f1: "fetchMatches ?e (t_catch (clock_at 1704110400000)) (Some ''2024-01-01'')
      (Some ''2024-01-02'') =
      (\<lparr> matches = [], count = 0, totalAvailable = None, error = Some ''network down'',
          timestamp = Some ''2024-01-01T12:00:00.000Z'' \<rparr>, [?req])"
    by code_simp
  have f2: "fetchMatches ?e (t_catch (clock_at 1704110460000)) (Some ''2024-01-01'')
      (Some ''2024-01-02'') =
      (\<lparr> matches = [], count = 0, totalAvailable = None, error = Some ''network down'',
          timestamp = Some ''2024-01-01T12:01:00.000Z'' \<rparr>, [?req])"
    by code_simp
  have e1: "error \<lparr> matches = [], count = 0, totalAvailable = None,
      error = Some ''network down'', timestamp = Some ''2024-01-01T12:00:00.000Z'' \<rparr> =
      Some ''network down''" by simp
  have e2: "error \<lparr> matches = [], count = 0, totalAvailable = None,
      error = Some ''network down'', timestamp = Some ''2024-01-01T12:01:00.000Z'' \<rparr> =
      Some ''network down''" by simp
  have n: "''network down'' \<noteq> []" by simp
  note w = errored_result_not_cached [OF p1 p2 o m f1 e1 n f2 e2 n]
  have a: "handle Today ?e (clock_at 1704110400000) Map.empty =
     (Sent 503 \<lparr> payload = \<lparr> matches = [], count = 0, totalAvailable = None,
                               error = Some ''Service temporarily unavailable'',
                               timestamp = Some ''2024-01-01T12:00:00.000Z'' \<rparr>,
                 cached = None, cacheTime = None, fetchTime = None \<rparr>,
      Map.empty, [Loader (Some ''2024-01-01'') (Some ''2024-01-02''), Outbound ?req])"
    using w by simp
  have b: "snd (handle Today ?e (clock_at 1704110460000)
       (fst (snd (handle Today ?e (clock_at 1704110400000) Map.empty)))) =
     (Map.empty, [Loader (Some ''2024-01-01'') (Some ''2024-01-02''), Outbound ?req])"
    using conjunct2 [OF w] by simp
  from a b show ?thesis by (rule conjI)
qed

text \<open>
  C6: for either route, when the cache holds an unexpired entry under the derived key,
  the handler answers 200 with the stored result unchanged, \<open>cached: true\<close> and a
  \<open>cacheTime\<close>, leaves the cache as it is and does not call fetchMatches (no event at
  all); once the entry's TTL has elapsed, the request calls fetchMatches again.
\<close>

theorem cache_hit_returns_stored:
  assumes "route_plan r (zone e) clk = Some (key, ttl, a, b)"
    and "c key = Some en"
  shows "(t_get clk < storedAt en + ttlSeconds en * 1000 \<longrightarrow>
            handle r e clk c =
              (Sent 200 \<lparr> payload = stored en, cached = Some True,
                          cacheTime = Some (toISOString (t_send clk)), fetchTime = None \<rparr>,
               c, [])) \<and>
         (storedAt en + ttlSeconds en * 1000 \<le> t_get clk \<longrightarrow>
            (\<exists>evs. snd (snd (handle r e clk c)) = Loader a b # evs))"
proof (intro conjI impI)
  assume "t_get clk < storedAt en + ttlSeconds en * 1000"
  with assms(2) have "cache_get c key (t_get clk) = Some (stored en)"
    by (simp add: cache_get_def readable_def)
  with assms(1) show "handle r e clk c =
      (Sent 200 \<lparr> payload = stored en, cached = Some True,
                  cacheTime = Some (toISOString (t_send clk)), fetchTime = None \<rparr>, c, [])"
    by (rule handle_hit)
next
  assume "storedAt en + ttlSeconds en * 1000 \<le> t_get clk"
  with assms(2) have miss: "cache_get c key (t_get clk) = None"
    by (simp add: cache_get_def readable_def)
  obtain data reqs where f: "fetchMatches e (t_catch clk) a b = (data, reqs)"
    by (cases "fetchMatches e (t_catch clk) a b")
  show "\<exists>evs. snd (snd (handle r e clk c)) = Loader a b # evs"
  proof (cases "truthy (error data)")
    case True
    show ?thesis
      by (simp add: handle_miss_error [OF assms(1) miss f True])
  next
    case False
    show ?thesis
      by (simp add: handle_miss_ok [OF assms(1) miss f False])
  qed
qed

theorem cache_hit_returns_stored_witness:
  "handle Today (env_with (Some ''tok'') (Rejected ''network down'')) (clock_at 1704110460000)
       (cache_set Map.empty ''matches_today_2024-01-01'' ok_result 1800 1704110400000) =
     (Sent 200 \<lparr> payload = ok_result, cached = Some True,
                 cacheTime = Some ''2024-01-01T12:01:00.000Z'', fetchTime = None \<rparr>,
      cache_set Map.empty ''matches_today_2024-01-01'' ok_result 1800 1704110400000, []) \<and>
   (\<exists>evs. snd (snd (handle Today (env_with (Some ''tok'') (Rejected ''network down''))
                      (clock_at 1704112200000)
                      (cache_set Map.empty ''matches_today_2024-01-01'' ok_result 1800
                         1704110400000))) =
           Loader (Some ''2024-01-01'') (Some ''2024-01-02'') # evs)"
proof -
  let ?e = "env_with (Some ''tok'') (Rejected ''network down'')"
  let ?c = "cache_set Map.empty ''matches_today_2024-01-01'' ok_result 1800 1704110400000"
  let ?en = "\<lparr> stored = ok_result, storedAt = 1704110400000, ttlSeconds = 1800 \<rparr>"
  have p1: "route_plan Today (zone ?e) (clock_at 1704110460000) =
      Some (''matches_today_2024-01-01'', 1800, Some ''2024-01-01'', Some ''2024-01-02'')"
    by code_simp
  have p2: "route_plan Today (zone ?e) (clock_at 1704112200000) =
      Some (''matches_today_2024-01-01'', 1800, Some ''2024-01-01'', Some ''2024-01-02'')"
    by code_simp
  have en: "?c ''matches_today_2024-01-01'' = Some ?en"
    by (simp add: cache_set_def)
  have t: "toISOString 1704110460000 = ''2024-01-01T12:01:00.000Z''" by code_simp
  have "handle Today ?e (clock_at 1704110460000) ?c =
     (Sent 200 \<lparr> payload = ok_result, cached = Some True,
                 cacheTime = Some ''2024-01-01T12:01:00.000Z'', fetchTime = None \<rparr>, ?c, [])"
    using cache_hit_returns_stored [where c = ?c, OF p1 en] by (simp add: clock_at_def t)
  moreover have "\<exists>evs. snd (snd (handle Today ?e (clock_at 1704112200000) ?c)) =
           Loader (Some ''2024-01-01'') (Some ''2024-01-02'') # evs"
    using cache_hit_returns_stored [where c = ?c, OF p2 en] by (simp add: clock_at_def)
  ultimately show ?thesis by (rule conjI)
qed

section \<open>Facts about the calendar and the date strings\<close>

lemma DaysInYear_bounds: "365 \<le> DaysInYear y \<and> DaysInYear y \<le> 366"
  by (simp add: DaysInYear_def)

lemma DayFromYear_1970: "DayFromYear 1970 = 0"
  by (simp add: DayFromYear_def)

lemma DayFromYear_upper: "0 \<le> k \<Longrightarrow> DayFromYear (1970 + k) \<le> 366 * k"
proof (induction k rule: int_ge_induct)
  case base
  then show ?case by (simp add: DayFromYear_1970)
next
  case (step i)
  have "DayFromYear (1970 + (i + 1)) = DayFromYear (1970 + i) + DaysInYear (1970 + i)"
    using DayFromYear_Suc [of "1970 + i"] by (simp add: add.assoc)
  with step.IH DaysInYear_bounds [of "1970 + i"] show ?case by simp
qed

lemma DayFromYear_lower: "k \<le> 0 \<Longrightarrow> DayFromYear (1970 + k) \<le> 365 * k"
proof (induction k rule: int_le_induct)
  case base
  then show ?case by (simp add: DayFromYear_1970)
next
  case (step i)
  have "DayFromYear (1970 + (i - 1) + 1) =
      DayFromYear (1970 + (i - 1)) + DaysInYear (1970 + (i - 1))"
    by (rule DayFromYear_Suc)
  moreover have "1970 + (i - 1) + 1 = 1970 + i" by simp
  ultimately have "DayFromYear (1970 + i) =
      DayFromYear (1970 + (i - 1)) + DaysInYear (1970 + (i - 1))" by simp
  with step.IH DaysInYear_bounds [of "1970 + (i - 1)"] show ?case by simp
qed

lemma year_guess_not_late:
  "DayFromYear (1970 + (if 0 \<le> d then d div 366 else d div 365)) \<le> d"
proof (cases "0 \<le> d")
  case True
  define q where "q = d div 366"
  have "0 \<le> q" using True by (simp add: q_def pos_imp_zdiv_nonneg_iff)
  then have "DayFromYear (1970 + q) \<le> 366 * q" by (rule DayFromYear_upper)
  moreover have "366 * q \<le> d"
  proof -
    have "d = 366 * q + d mod 366" by (simp add: q_def)
    moreover have "0 \<le> d mod 366" by simp
    ultimately show ?thesis by linarith
  qed
  ultimately show ?thesis using True by (simp add: q_def)
next
  case False
  define q where "q = d div 365"
  have "q \<le> 0"
  proof -
    have "d div 365 < 0" using False by (simp add: neg_imp_zdiv_neg_iff)
    then show ?thesis by (simp add: q_def)
  qed
  then have "DayFromYear (1970 + q) \<le> 365 * q" by (rule DayFromYear_lower)
  moreover have "365 * q \<le> d"
  proof -
    have "d = 365 * q + d mod 365" by (simp add: q_def)
    moreover have "0 \<le> d mod 365" by simp
    ultimately show ?thesis by linarith
  qed
  ultimately show ?thesis using False by (simp add: q_def)
qed

lemma year_search_spec:
  "DayFromYear y \<le> d \<Longrightarrow>
     DayFromYear (year_search d y) \<le> d \<and> d < DayFromYear (year_search d y + 1)"
proof (induction d y rule: year_search.induct)
  case (1 d y)
  show ?case
  proof (cases "DayFromYear (y + 1) \<le> d")
    case True
    then have "year_search d y = year_search d (y + 1)"
      by (subst year_search.simps) simp
    with 1 True show ?thesis by simp
  next
    case False
    then have "year_search d y = y"
      by (subst year_search.simps) simp
    with 1 False show ?thesis by simp
  qed
qed

text \<open>\<open>YearFromTime\<close> is the year ECMA-262 defines: the last one that starts on or before \<open>t\<close>.\<close>

lemma YearFromDay_spec:
  "DayFromYear (YearFromDay d) \<le> d \<and> d < DayFromYear (YearFromDay d + 1)"
  unfolding YearFromDay_def by (rule year_search_spec) (rule year_guess_not_late)

lemma DayWithinYear_range:
  "0 \<le> DayWithinYear t \<and> DayWithinYear t < DaysInYear (YearFromTime t)"
  using YearFromDay_spec [of "Day t"]
  by (simp add: DayWithinYear_def YearFromTime_def DayFromYear_Suc)

lemma month_of_day_range: "0 \<le> month_of_day leap d \<and> month_of_day leap d \<le> 11"
  by (simp add: month_of_day_def)

lemma MakeDay_in_year:
  assumes "0 \<le> m" and "m \<le> 11"
  shows "MakeDay y m n =
           DayFromYear y + month_start (if DaysInYear y = 366 then 1 else 0) m + n - 1"
proof -
  have "m div 12 = 0" and "m mod 12 = m" using assms by simp_all
  then show ?thesis by (simp add: MakeDay_def)
qed

lemma MakeDay_shift_date:
  "MakeDay (YearFromTime t) (MonthFromTime t) (DateFromTime t + n) = Day t + n"
proof -
  have r: "0 \<le> MonthFromTime t" "MonthFromTime t \<le> 11"
    using month_of_day_range [of "InLeapYear t" "DayWithinYear t"]
    by (simp_all add: MonthFromTime_def)
  show ?thesis
    unfolding MakeDay_in_year [OF r]
    by (simp add: DateFromTime_def DayWithinYear_def InLeapYear_def)
qed

lemma MakeDate_Day_shift:
  "MakeDate (Day t + n) (TimeWithinDay t) = t + n * msPerDay"
proof -
  have "t div msPerDay * msPerDay + t mod msPerDay = t" by simp
  then show ?thesis
    by (simp add: MakeDate_def Day_def TimeWithinDay_def algebra_simps)
qed

definition fixed_offset :: "timezone \<Rightarrow> int \<Rightarrow> bool" where
  "fixed_offset z k = (offsetAtUTC z = (\<lambda>t. k) \<and> offsetAtLocal z = (\<lambda>t. k))"

lemma setDate_getDate_fixed_offset:
  assumes "fixed_offset z k"
  shows "setDate z (Some t) (map_option (\<lambda>d. d + n) (getDate z (Some t))) =
           TimeClip (t + n * msPerDay)"
proof -
  have l: "LocalTime z t = t + k" and u: "UTC z x = x - k" for x
    using assms by (simp_all add: fixed_offset_def LocalTime_def UTC_def)
  show ?thesis
    by (simp add: setDate_def getDate_def l u MakeDay_shift_date MakeDate_Day_shift)
qed

lemma default_dateTo_fixed_offset:
  assumes "fixed_offset (zone e) k" and "new_Date e s = Some t"
    and "\<bar>t + 5 * msPerDay\<bar> \<le> 8640000000000000"
  shows "default_dateTo e s = Inr (split_T_0 (toISOString (t + 5 * msPerDay)))"
  using assms(3)
  by (simp add: default_dateTo_def assms(2) setDate_getDate_fixed_offset [OF assms(1)]
        TimeClip_def)

lemma getDateString_fixed_offset:
  assumes "fixed_offset z k" and "\<bar>now + n * msPerDay\<bar> \<le> 8640000000000000"
  shows "getDateString z now n = Some (split_T_0 (toISOString (now + n * msPerDay)))"
  using assms(2)
  by (simp add: getDateString_def setDate_getDate_fixed_offset [OF assms(1)] TimeClip_def)

subsection \<open>Digits\<close>

lemma length_pad_digits: "length (pad_digits w n) = w"
  by (induction w arbitrary: n) simp_all

lemma digit_char_in: "digit_char n \<in> set ''0123456789''"
proof -
  have "n mod 10 < length ''0123456789''" by simp
  then show ?thesis unfolding digit_char_def by (rule nth_mem)
qed

lemma set_pad_digits: "set (pad_digits w n) \<subseteq> set ''0123456789''"
proof (induction w arbitrary: n)
  case 0
  then show ?case by simp
next
  case (Suc w)
  from Suc [of "n div 10"] digit_char_in [of n] show ?case by simp
qed

lemma less_10_cases:
  "(k::nat) < 10 \<Longrightarrow> k = 0 \<or> k = 1 \<or> k = 2 \<or> k = 3 \<or> k = 4 \<or> k = 5 \<or> k = 6 \<or> k = 7 \<or> k = 8 \<or> k = 9"
  by arith

lemma digit_val_digit_char: "digit_val (digit_char n) = Some (n mod 10)"
proof -
  have "n mod 10 < 10" by simp
  from less_10_cases [OF this] show ?thesis
    by (elim disjE) (simp_all add: digit_char_def digit_val_def)
qed

lemma digits_val_snoc:
  "digits_val (xs @ [c]) =
     (case digits_val xs of
        None \<Rightarrow> None
      | Some u \<Rightarrow> (case digit_val c of None \<Rightarrow> None | Some v \<Rightarrow> Some (10 * u + v)))"
  by (simp add: digits_val_def)

lemma digits_val_pad_digits: "digits_val (pad_digits w n) = Some (n mod 10 ^ w)"
proof (induction w arbitrary: n)
  case 0
  then show ?case by (simp add: digits_val_def)
next
  case (Suc w)
  have "n mod (10 * 10 ^ w) = 10 * (n div 10 mod 10 ^ w) + n mod 10"
    by (rule mod_mult2_eq)
  then show ?case
    by (simp add: digits_val_snoc Suc digit_val_digit_char)
qed

lemma InLeapYear_DaysInYear: "DaysInYear (YearFromTime t) = 365 + InLeapYear t"
  using DaysInYear_bounds [of "YearFromTime t"]
  by (auto simp: InLeapYear_def DaysInYear_def)

lemma month_bracket:
  assumes "leap = 0 \<or> leap = 1" and "0 \<le> d" and "d < 365 + leap"
  shows "month_start leap (month_of_day leap d) \<le> d \<and>
         d < month_start leap (month_of_day leap d + 1)"
  using assms by (auto simp: month_of_day_def month_start_def)

lemma DateFromTime_range:
  "1 \<le> DateFromTime t \<and>
   DateFromTime t \<le> month_start (InLeapYear t) (MonthFromTime t + 1) -
                      month_start (InLeapYear t) (MonthFromTime t)"
proof -
  have l: "InLeapYear t = 0 \<or> InLeapYear t = 1" by (simp add: InLeapYear_def)
  have r: "0 \<le> DayWithinYear t" "DayWithinYear t < 365 + InLeapYear t"
    using DayWithinYear_range [of t] by (simp_all add: InLeapYear_DaysInYear)
  from month_bracket [OF l r] show ?thesis
    by (simp add: DateFromTime_def MonthFromTime_def)
qed

lemma DateFromTime_le_31: "DateFromTime t \<le> 31"
proof -
  have l: "InLeapYear t = 0 \<or> InLeapYear t = 1" by (simp add: InLeapYear_def)
  have m: "0 \<le> MonthFromTime t" "MonthFromTime t \<le> 11"
    using month_of_day_range [of "InLeapYear t" "DayWithinYear t"]
    by (simp_all add: MonthFromTime_def)
  have "month_start leap (m + 1) - month_start leap m \<le> 31"
    if "leap = 0 \<or> leap = 1" for leap m :: int
    using that by (auto simp: month_start_def)
  from this [OF l, of "MonthFromTime t"] DateFromTime_range [of t] show ?thesis by linarith
qed

subsection \<open>The date part of toISOString, and parsing it back\<close>

definition iso_date :: "int \<Rightarrow> string" where
  "iso_date t =
     year_string (YearFromTime t) @ ''-'' @ pad_digits 2 (nat (MonthFromTime t + 1)) @ ''-'' @
     pad_digits 2 (nat (DateFromTime t))"

lemma T_notin_pad_digits: "CHR ''T'' \<notin> set (pad_digits w n)"
proof -
  have "CHR ''T'' \<notin> set ''0123456789''" by simp
  then show ?thesis using set_pad_digits [of w n] by blast
qed

lemma T_notin_year_string: "CHR ''T'' \<notin> set (year_string y)"
proof (cases "0 \<le> y \<and> y \<le> 9999")
  case True
  then have "year_string y = pad_digits 4 (nat y)" by (simp add: year_string_def)
  then show ?thesis by (simp only: T_notin_pad_digits not_False_eq_True)
next
  case False
  then have "year_string y = (if y < 0 then ''-'' else ''+'') @ pad_digits 6 (nat \<bar>y\<bar>)"
    unfolding year_string_def by (simp only: if_False)
  moreover have "CHR ''T'' \<notin> set (if y < 0 then ''-'' else ''+'')" by simp
  ultimately show ?thesis
    using T_notin_pad_digits [of 6 "nat \<bar>y\<bar>"] by (simp only: set_append Un_iff) blast
qed

lemma iso_date_no_T: "CHR ''T'' \<notin> set (iso_date t)"
proof -
  have "CHR ''T'' \<notin> set ''-''" by simp
  then show ?thesis
    unfolding iso_date_def
    using T_notin_year_string [of "YearFromTime t"]
      T_notin_pad_digits [of 2 "nat (MonthFromTime t + 1)"]
      T_notin_pad_digits [of 2 "nat (DateFromTime t)"]
    by (simp only: set_append Un_iff) blast
qed

lemma split_T_0_toISOString: "split_T_0 (toISOString t) = iso_date t"
proof -
  obtain rest where r: "toISOString t = iso_date t @ CHR ''T'' # rest"
    by (simp add: toISOString_def iso_date_def)
  have "\<forall>c \<in> set (iso_date t). c \<noteq> CHR ''T''"
    using iso_date_no_T [of t] by auto
  then show ?thesis
    unfolding r split_T_0_def by (simp add: takeWhile_append2)
qed

lemma parse_iso_date_parts:
  assumes "length a = 4" and "length b = 2" and "length c = 2"
    and "digits_val a = Some y" and "digits_val b = Some m" and "digits_val c = Some d"
  shows "parse_iso_date (a @ ''-'' @ b @ ''-'' @ c) =
           (let leap = (if DaysInYear (int y) = 366 then 1 else 0) in
              if 1 \<le> m \<and> m \<le> 12 \<and> 1 \<le> d \<and>
                 int d \<le> month_start leap (int m) - month_start leap (int m - 1)
              then Some (MakeDate (MakeDay (int y) (int m - 1) (int d)) 0)
              else None)"
  using assms by (simp add: parse_iso_date_def nth_append)

lemma parse_iso_date_iso_date:
  assumes "0 \<le> YearFromTime t" and "YearFromTime t \<le> 9999"
  shows "parse_iso_date (iso_date t) = Some (Day t * msPerDay)"
proof -
  define y where "y = nat (YearFromTime t)"
  define m where "m = nat (MonthFromTime t + 1)"
  define d where "d = nat (DateFromTime t)"
  have mr: "0 \<le> MonthFromTime t" "MonthFromTime t \<le> 11"
    using month_of_day_range [of "InLeapYear t" "DayWithinYear t"]
    by (simp_all add: MonthFromTime_def)
  have dr: "1 \<le> DateFromTime t" "DateFromTime t \<le> 31"
    using DateFromTime_range [of t] DateFromTime_le_31 [of t] by simp_all
  have iy: "int y = YearFromTime t" using assms(1) by (simp add: y_def)
  have im: "int m = MonthFromTime t + 1" using mr by (simp add: m_def)
  have id: "int d = DateFromTime t" using dr by (simp add: d_def)
  have ys: "year_string (YearFromTime t) = pad_digits 4 y"
    using assms by (simp add: year_string_def y_def)
  have vy: "digits_val (pad_digits 4 y) = Some y"
  proof -
    have "int y < 10000" using assms(2) iy by simp
    then have "y < 10 ^ 4" by simp
    then show ?thesis by (simp add: digits_val_pad_digits)
  qed
  have vm: "digits_val (pad_digits 2 m) = Some m"
  proof -
    have "int m < 100" using mr im by simp
    then have "m < 10 ^ 2" by simp
    then show ?thesis by (simp add: digits_val_pad_digits)
  qed
  have vd: "digits_val (pad_digits 2 d) = Some d"
  proof -
    have "int d < 100" using dr id by simp
    then have "d < 10 ^ 2" by simp
    then show ?thesis by (simp add: digits_val_pad_digits)
  qed
  have shape: "iso_date t = pad_digits 4 y @ ''-'' @ pad_digits 2 m @ ''-'' @ pad_digits 2 d"
    by (simp only: iso_date_def ys m_def d_def)
  have leap: "(if DaysInYear (int y) = 366 then 1 else 0) = InLeapYear t"
    by (simp add: iy InLeapYear_def)
  have m1: "1 \<le> m" "m \<le> 12" using mr im by linarith+
  have d1: "1 \<le> d" using dr id by linarith
  have d2: "int d \<le> month_start (InLeapYear t) (int m) - month_start (InLeapYear t) (int m - 1)"
    using DateFromTime_range [of t] by (simp add: id im)
  have mk: "MakeDay (int y) (int m - 1) (int d) = Day t"
    using MakeDay_shift_date [of t 0] by (simp add: iy im id)
  have "parse_iso_date (iso_date t) = Some (MakeDate (Day t) 0)"
    unfolding shape
    using m1 d1 d2
    by (subst parse_iso_date_parts [OF _ _ _ vy vm vd])
       (simp_all add: length_pad_digits leap mk)
  then show ?thesis by (simp add: MakeDate_def)
qed

lemma parse_iso_date_midnight:
  assumes "parse_iso_date s = Some t"
  shows "Day t * msPerDay = t"
proof -
  from assms obtain D where "t = MakeDate D 0"
    by (auto simp: parse_iso_date_def Let_def split: if_splits option.splits)
  then show ?thesis by (simp add: MakeDate_def Day_def msPerDay_def)
qed

lemma Day_add_days: "Day (t + n * msPerDay) = Day t + n"
  by (simp add: Day_def msPerDay_def)

text \<open>
  In a zone whose offset from UTC never changes, lines 68-70 do add five days: for a
  calendar date \<open>dateFrom\<close> in the form YYYY-MM-DD, the default dateTo is the calendar
  date of the instant five days later.
\<close>

lemma default_dateTo_fixed_offset_plus_5:
  assumes "fixed_offset (zone e) k"
    and "parse_iso_date dateFrom = Some t"
    and "0 \<le> YearFromTime (t + 5 * msPerDay)" and "YearFromTime (t + 5 * msPerDay) \<le> 9999"
    and "\<bar>t + 5 * msPerDay\<bar> \<le> 8640000000000000"
  shows "\<exists>d. default_dateTo e dateFrom = Inr d \<and> parse_iso_date d = Some (t + 5 * msPerDay)"
proof -
  have n: "new_Date e dateFrom = Some t"
    by (simp add: new_Date_def Date_parse_def assms(2))
  have d: "default_dateTo e dateFrom = Inr (iso_date (t + 5 * msPerDay))"
    using default_dateTo_fixed_offset [OF assms(1) n assms(5)]
    by (simp only: split_T_0_toISOString)
  have "parse_iso_date (iso_date (t + 5 * msPerDay)) = Some (Day (t + 5 * msPerDay) * msPerDay)"
    using assms(3,4) by (rule parse_iso_date_iso_date)
  also have "Day (t + 5 * msPerDay) * msPerDay = t + 5 * msPerDay"
    using parse_iso_date_midnight [OF assms(2)]
    by (simp only: Day_add_days) (simp add: algebra_simps)
  finally show ?thesis using d by blast
qed

lemma read_response_active:
  "read_response res = Inr r \<Longrightarrow> m \<in> set (matches r) \<Longrightarrow> active m"
  by (auto simp: read_response_def Let_def split: if_splits sum.splits
           dest: filter_matches_active)

text \<open>Whatever the inputs and the response, every match fetchMatches returns is active.\<close>

lemma fetchMatches_returns_active_only:
  assumes "m \<in> set (matches (fst (fetchMatches e now dateFrom dateTo)))"
  shows "\<exists>s. status_of m = Some s \<and> s \<in> {''SCHEDULED'', ''LIVE'', ''IN_PLAY'', ''PAUSED''}"
proof -
  have "active m"
    using assms
    by (auto simp: fetchMatches_def fetchMatches_try_def
             split: if_splits sum.splits fetch_outcome.splits prod.splits
             dest: read_response_active)
  then show ?thesis by (rule active_status)
qed

lemma DayFromYear_at_least: "0 \<le> k \<Longrightarrow> 365 * k \<le> DayFromYear (1970 + k)"
proof (induction k rule: int_ge_induct)
  case base
  then show ?case by (simp add: DayFromYear_1970)
next
  case (step i)
  have "DayFromYear (1970 + (i + 1)) = DayFromYear (1970 + i) + DaysInYear (1970 + i)"
    using DayFromYear_Suc [of "1970 + i"] by (simp add: add.assoc)
  with step.IH DaysInYear_bounds [of "1970 + i"] show ?case by simp
qed

text \<open>Days from 1970 up to the year 9993 lie in years that print with four digits.\<close>

lemma YearFromDay_four_digits:
  assumes "0 \<le> d" and "d < 2930950"
  shows "1970 \<le> YearFromDay d \<and> YearFromDay d \<le> 9999"
proof -
  define y where "y = YearFromDay d"
  have s: "DayFromYear y \<le> d" "d < DayFromYear (y + 1)"
    using YearFromDay_spec [of d] by (simp_all add: y_def)
  have lo: "1970 \<le> y"
  proof (rule ccontr)
    assume "\<not> 1970 \<le> y"
    then have "y + 1 - 1970 \<le> 0" by simp
    then have a: "DayFromYear (1970 + (y + 1 - 1970)) \<le> 365 * (y + 1 - 1970)"
      by (rule DayFromYear_lower)
    have e: "1970 + (y + 1 - 1970) = y + 1" by simp
    have "DayFromYear (y + 1) \<le> 365 * (y + 1 - 1970)"
      using a unfolding e .
    moreover have "365 * (y + 1 - 1970) \<le> 0"
      using \<open>y + 1 - 1970 \<le> 0\<close> by simp
    ultimately have "DayFromYear (y + 1) \<le> 0" by (rule order_trans)
    with s(2) assms(1) show False by linarith
  qed
  have hi: "y \<le> 9999"
  proof (rule ccontr)
    assume "\<not> y \<le> 9999"
    then have k: "8030 \<le> y - 1970" by simp
    then have "0 \<le> y - 1970" by simp
    then have a: "365 * (y - 1970) \<le> DayFromYear (1970 + (y - 1970))"
      by (rule DayFromYear_at_least)
    have e: "1970 + (y - 1970) = y" by simp
    have "365 * (y - 1970) \<le> DayFromYear y"
      using a unfolding e .
    moreover have "2930950 \<le> 365 * (y - 1970)" using k by simp
    ultimately have "2930950 \<le> DayFromYear y" by (rule order_trans [rotated])
    with s(1) assms(2) show False by linarith
  qed
  from lo hi show ?thesis by (simp add: y_def)
qed

lemma Day_of_day_start: "Day (d * msPerDay) = d"
  by (simp add: Day_def msPerDay_def)

text \<open>The date part of \<open>toISOString\<close> depends on the day only.\<close>

definition day_string :: "int \<Rightarrow> string" where
  "day_string d = iso_date (d * msPerDay)"

lemma iso_date_day_string: "iso_date t = day_string (Day t)"
  by (simp add: day_string_def iso_date_def YearFromTime_def MonthFromTime_def DateFromTime_def
        InLeapYear_def DayWithinYear_def Day_of_day_start)

lemma parse_iso_date_day_string:
  assumes "0 \<le> d" and "d < 2930950"
  shows "parse_iso_date (day_string d) = Some (d * msPerDay)"
proof -
  have "0 \<le> YearFromTime (d * msPerDay) \<and> YearFromTime (d * msPerDay) \<le> 9999"
    using YearFromDay_four_digits [OF assms] by (simp add: YearFromTime_def Day_of_day_start)
  then have "parse_iso_date (iso_date (d * msPerDay)) = Some (Day (d * msPerDay) * msPerDay)"
    by (intro parse_iso_date_iso_date) simp_all
  then show ?thesis by (simp add: day_string_def Day_of_day_start)
qed

lemma Day_bounds:
  assumes "0 \<le> t" and "t \<le> 253000000000000"
  shows "0 \<le> Day t \<and> Day t \<le> 2928240"
proof -
  have "0 div msPerDay \<le> t div msPerDay"
    using assms(1) by (intro zdiv_mono1) (simp_all add: msPerDay_def)
  moreover have "t div msPerDay \<le> 253000000000000 div msPerDay"
    using assms(2) by (intro zdiv_mono1) (simp_all add: msPerDay_def)
  moreover have "253000000000000 div msPerDay = 2928240" by (simp add: msPerDay_def)
  ultimately show ?thesis by (simp add: Day_def)
qed

lemma getDateString_fixed_offset_day:
  assumes "fixed_offset z k" and "\<bar>now + n * msPerDay\<bar> \<le> 8640000000000000"
  shows "getDateString z now n = Some (day_string (Day now + n))"
  using getDateString_fixed_offset [OF assms]
  by (simp add: split_T_0_toISOString iso_date_day_string Day_add_days)

lemma getDateString_fixed_offset_Some:
  assumes "fixed_offset z k" and "getDateString z now n = Some s"
  shows "s = day_string (Day now + n)"
proof -
  have "setDate z (Some now) (map_option (\<lambda>d. d + n) (getDate z (Some now))) =
      TimeClip (now + n * msPerDay)"
    using assms(1) by (rule setDate_getDate_fixed_offset)
  with assms(2) have "s = split_T_0 (toISOString (now + n * msPerDay))"
    by (auto simp: getDateString_def Let_def TimeClip_def split: option.splits if_splits)
  then show ?thesis
    by (simp add: split_T_0_toISOString iso_date_day_string Day_add_days)
qed

lemma parse_iso_date_nonempty: "parse_iso_date s = Some t \<Longrightarrow> s \<noteq> []"
  by (auto simp: parse_iso_date_def split: if_splits)

lemma new_Date_day_string:
  assumes "0 \<le> d" and "d < 2930950"
  shows "new_Date e (day_string d) = Some (d * msPerDay)"
  by (simp add: new_Date_def Date_parse_def parse_iso_date_day_string [OF assms])

lemma truthy_day_string:
  assumes "0 \<le> d" and "d < 2930950"
  shows "truthy (Some (day_string d))"
  using parse_iso_date_nonempty [OF parse_iso_date_day_string [OF assms]]
  by (simp add: truthy_def)

lemma default_dateTo_day_string:
  assumes "fixed_offset (zone e) k" and "0 \<le> d" and "d < 2930000"
  shows "default_dateTo e (day_string d) = Inr (day_string (d + 5))"
proof -
  have n: "new_Date e (day_string d) = Some (d * msPerDay)"
    using assms(2,3) by (intro new_Date_day_string) simp_all
  have b: "\<bar>d * msPerDay + 5 * msPerDay\<bar> \<le> 8640000000000000"
    using assms(2,3) by (simp add: msPerDay_def)
  have "default_dateTo e (day_string d) =
      Inr (split_T_0 (toISOString (d * msPerDay + 5 * msPerDay)))"
    using assms(1) n b by (rule default_dateTo_fixed_offset)
  then show ?thesis
    by (simp add: split_T_0_toISOString iso_date_day_string Day_add_days Day_of_day_start)
qed

text \<open>
  In a zone of fixed offset, the request that fetchMatches builds from a calendar date
  alone: the range from that date to the date five days later.
\<close>

lemma build_request_from_day:
  assumes "fixed_offset (zone e) k" and "import_failure e = None"
    and "0 \<le> d" and "d < 2930000"
  shows "build_request e tok (Some (day_string d)) None =
           Inr \<lparr> auth_token = tok,
                 query = [(''dateFrom'', day_string d), (''dateTo'', day_string (d + 5))] \<rparr>"
proof -
  have t1: "truthy (Some (day_string d))"
    using assms(3,4) by (intro truthy_day_string) simp_all
  have n1: "new_Date e (day_string d) = Some (d * msPerDay)"
    using assms(3,4) by (intro new_Date_day_string) simp_all
  have dd: "default_dateTo e (day_string d) = Inr (day_string (d + 5))"
    using assms(1,3,4) by (rule default_dateTo_day_string)
  have t2: "truthy (Some (day_string (d + 5)))"
    using assms(3,4) by (intro truthy_day_string) simp_all
  have n2: "new_Date e (day_string (d + 5)) = Some ((d + 5) * msPerDay)"
    using assms(3,4) by (intro new_Date_day_string) simp_all
  have f: "\<not> truthy None" by (simp add: truthy_def)
  show ?thesis
    by (simp add: build_request_def assms(2) t1 n1 dd t2 n2 f str_of_def)
qed

lemma fetchMatches_one_request:
  assumes "truthy (FOOTBALL_API_TOKEN e)"
    and "build_request e (str_of (FOOTBALL_API_TOKEN e)) a b = Inr req"
  shows "snd (fetchMatches e now a b) = [req]"
  using assms
  by (simp add: fetchMatches_def fetchMatches_try_def
           split: fetch_outcome.splits sum.splits prod.splits)

lemma serve_miss_events:
  assumes "cache_get c key (t_get clk) = None"
    and "snd (fetchMatches e (t_catch clk) a b) = reqs"
  shows "\<exists>out c' rest.
           serve e clk c key ttl a b = (out, c', Loader a b # map Outbound reqs @ rest) \<and>
           (rest = [] \<or> rest = [CacheSet key ttl])"
proof -
  obtain data where f: "fetchMatches e (t_catch clk) a b = (data, reqs)"
    using assms(2) by (cases "fetchMatches e (t_catch clk) a b") simp
  show ?thesis
    by (cases "truthy (error data)") (simp_all add: serve_def assms(1) f)
qed

section \<open>Scenarios\<close>

text \<open>
  A server whose local time zone observes daylight saving time: America/New_York around
  the change of 10 March 2024, when clocks went from UTC-5 to UTC-4 at 07:00 UTC (02:00
  local time).
\<close>

definition tz_new_york :: timezone where
  "tz_new_york =
     \<lparr> offsetAtUTC = (\<lambda>t. if t < 1710054000000 then - 18000000 else - 14400000),
       offsetAtLocal = (\<lambda>lt. if lt < 1710039600000 then - 18000000 else - 14400000) \<rparr>"

definition env_new_york :: env where
  "env_new_york =
     \<lparr> FOOTBALL_API_TOKEN = Some ''tok'', import_failure = None,
       upstream = (\<lambda>r. response_200 (JObj [(''matches'', JArr [])])),
       zone = tz_new_york, implParse = (\<lambda>s. None) \<rparr>"

text \<open>A server in UTC whose upstream answers with an empty list of matches.\<close>

definition env_utc :: env where
  "env_utc = env_with (Some ''tok'') (response_200 (JObj [(''matches'', JArr [])]))"

definition empty_result :: match_query_result where
  "empty_result = \<lparr> matches = [], count = 0, totalAvailable = Some 0, error = None,
                    timestamp = None \<rparr>"

text \<open>
  The cache after two requests to the today route, at 23:50 UTC on 1 January 2024 and at
  00:05 UTC on 2 January 2024.
\<close>

definition midnight_cache :: cache where
  "midnight_cache =
     fst (snd (handle Today env_utc (clock_at 1704153900000)
       (fst (snd (handle Today env_utc (clock_at 1704153000000) Map.empty)))))"

text \<open>
  The clock never runs backwards while a request is served, and a request is served in
  less than a day minus the longest TTL (the outbound fetch gives up after 10 seconds).
\<close>

definition in_order :: "clock \<Rightarrow> bool" where
  "in_order clk =
     (t_today clk \<le> t_tomorrow clk \<and> t_tomorrow clk \<le> t_get clk \<and> t_get clk \<le> t_catch clk \<and>
      t_catch clk \<le> t_set clk \<and> t_set clk \<le> t_send clk)"

definition max_request_ms :: int where
  "max_request_ms = 84600000"

text \<open>
  \<open>served z now c\<close>: a server in time zone \<open>z\<close> can hold the cache \<open>c\<close> at the instant
  \<open>now\<close>. It starts with an empty cache, serves requests one after the other, lets time
  pass, and may flush the cache.
\<close>

inductive served :: "timezone \<Rightarrow> int \<Rightarrow> cache \<Rightarrow> bool" for z :: timezone where
  start: "served z t Map.empty"
| request: "served z t c \<Longrightarrow> zone e = z \<Longrightarrow> t \<le> t_today clk \<Longrightarrow> in_order clk \<Longrightarrow>
            t_set clk - t_today clk \<le> max_request_ms \<Longrightarrow>
            handle r e clk c = (out, c', evs) \<Longrightarrow> served z (t_send clk) c'"
| wait: "served z t c \<Longrightarrow> t \<le> t' \<Longrightarrow> served z t' c"
| flush: "served z t c \<Longrightarrow> served z t (flushAll c)"

text \<open>The dates whose key of one route (given by its prefix) is unexpired at \<open>now\<close>.\<close>

definition live_dates :: "string \<Rightarrow> cache \<Rightarrow> int \<Rightarrow> string set" where
  "live_dates prefix c now = {d. cache_get c (prefix @ d) now \<noteq> None}"

text \<open>Where an entry comes from: the instant its key was derived at, and the route.\<close>

definition derived_at :: "timezone \<Rightarrow> string \<Rightarrow> cache_entry \<Rightarrow> int \<Rightarrow> bool" where
  "derived_at z k en t =
     (t \<le> storedAt en \<and> storedAt en - t \<le> max_request_ms \<and>
      ((\<exists>d. getDateString z t 0 = Some d \<and> k = ''matches_today_'' @ d \<and> ttlSeconds en = 1800) \<or>
       (\<exists>d. getDateString z t 1 = Some d \<and> k = ''matches_upcoming_from_'' @ d \<and>
            ttlSeconds en = 300)))"

lemma serve_new_entry:
  assumes "serve e clk c key ttl a b = (out, c', evs)"
    and "c' k = Some en"
  shows "c k = Some en \<or> (k = key \<and> storedAt en = t_set clk \<and> ttlSeconds en = ttl)"
  using assms
  by (auto simp: serve_def cache_set_def split: option.splits prod.splits if_splits)

lemma handle_no_plan:
  assumes "route_plan r (zone e) clk = None" and "handle r e clk c = (out, c', evs)"
  shows "c' = c"
  using assms
  by (cases r)
     (auto simp: handle_def handle_today_def handle_upcoming_def route_plan_def
           split: option.splits)

lemma served_entries:
  assumes "served z now c" and "c k = Some en"
  shows "storedAt en \<le> now \<and> (\<exists>t. derived_at z k en t)"
  using assms
proof (induction arbitrary: k en rule: served.induct)
  case (start t)
  then show ?case by simp
next
  case (wait t c t')
  from wait.IH [OF wait.prems] wait.hyps(2) show ?case by auto
next
  case (flush t c)
  then show ?case by (simp add: flushAll_def)
next
  case (request t c e clk r out c' evs)
  have ord: "t \<le> t_set clk" "t_set clk \<le> t_send clk" "t_today clk \<le> t_set clk"
    "t_tomorrow clk \<le> t_set clk" "t_set clk - t_tomorrow clk \<le> max_request_ms"
    using request.hyps(3,4,5) by (simp_all add: in_order_def)
  have old: "storedAt en \<le> t_send clk \<and> (\<exists>t. derived_at z k en t)" if "c k = Some en"
    using request.IH [OF that] ord(1,2) by auto
  show ?case
  proof (cases "route_plan r (zone e) clk")
    case None
    then have "c' = c" using request.hyps(6) by (rule handle_no_plan)
    with request.prems old show ?thesis by simp
  next
    case (Some plan)
    obtain key ttl a b where plan: "plan = (key, ttl, a, b)" by (cases plan)
    have s: "serve e clk c key ttl a b = (out, c', evs)"
      using request.hyps(6) handle_serve [of r e clk key ttl a b c] Some plan by simp
    from serve_new_entry [OF s request.prems] show ?thesis
    proof
      assume "c k = Some en"
      then show ?thesis by (rule old)
    next
      assume n: "k = key \<and> storedAt en = t_set clk \<and> ttlSeconds en = ttl"
      have "\<exists>t. derived_at z k en t"
      proof (cases r)
        case Today
        with Some plan obtain today where
          "getDateString (zone e) (t_today clk) 0 = Some today"
          "key = ''matches_today_'' @ today" "ttl = 1800"
          by (auto simp: route_plan_def split: option.splits)
        with n request.hyps(2,5) ord(3) have "derived_at z k en (t_today clk)"
          by (simp add: derived_at_def)
        then show ?thesis ..
      next
        case Upcoming
        with Some plan obtain tomorrow where
          "getDateString (zone e) (t_tomorrow clk) 1 = Some tomorrow"
          "key = ''matches_upcoming_from_'' @ tomorrow" "ttl = 300"
          by (auto simp: route_plan_def split: option.splits)
        with n request.hyps(2) ord(4,5) have "derived_at z k en (t_tomorrow clk)"
          by (simp add: derived_at_def)
        then show ?thesis ..
      qed
      with n ord(2) show ?thesis by simp
    qed
  qed
qed

lemma Day_within_a_day:
  assumes "now - msPerDay < t" and "t \<le> now"
  shows "Day t = Day now - 1 \<or> Day t = Day now"
proof -
  have "Day t \<le> Day now"
    unfolding Day_def using assms(2) by (intro zdiv_mono1) (simp_all add: msPerDay_def)
  moreover have "Day (now + (- 1) * msPerDay) \<le> Day t"
    unfolding Day_def using assms(1) by (intro zdiv_mono1) (simp_all add: msPerDay_def)
  moreover have "Day (now + (- 1) * msPerDay) = Day now + (- 1)" by (rule Day_add_days)
  ultimately show ?thesis by linarith
qed

lemma today_entry_dates:
  assumes "fixed_offset z k0" and "derived_at z (''matches_today_'' @ d) en t"
    and "storedAt en \<le> now" and "readable en now"
  shows "(d = day_string (Day now - 1) \<or> d = day_string (Day now)) \<and> ttlSeconds en = 1800"
proof -
  from assms(2) have t: "t \<le> storedAt en" "storedAt en - t \<le> 84600000"
    and g: "getDateString z t 0 = Some d" and ttl: "ttlSeconds en = 1800"
    by (auto simp: derived_at_def max_request_ms_def)
  from assms(4) ttl have "now < storedAt en + 1800000" by (simp add: readable_def)
  with t assms(3) have "now - msPerDay < t" "t \<le> now" by (simp_all add: msPerDay_def)
  then have "Day t = Day now - 1 \<or> Day t = Day now" by (rule Day_within_a_day)
  moreover have "d = day_string (Day t + 0)"
    using assms(1) g by (rule getDateString_fixed_offset_Some)
  ultimately show ?thesis using ttl by auto
qed

lemma upcoming_entry_dates:
  assumes "fixed_offset z k0" and "derived_at z (''matches_upcoming_from_'' @ d) en t"
    and "storedAt en \<le> now" and "readable en now"
  shows "(d = day_string (Day now) \<or> d = day_string (Day now + 1)) \<and> ttlSeconds en = 300"
proof -
  from assms(2) have t: "t \<le> storedAt en" "storedAt en - t \<le> 84600000"
    and g: "getDateString z t 1 = Some d" and ttl: "ttlSeconds en = 300"
    by (auto simp: derived_at_def max_request_ms_def)
  from assms(4) ttl have "now < storedAt en + 300000" by (simp add: readable_def)
  with t assms(3) have "now - msPerDay < t" "t \<le> now" by (simp_all add: msPerDay_def)
  then have "Day t = Day now - 1 \<or> Day t = Day now" by (rule Day_within_a_day)
  moreover have "d = day_string (Day t + 1)"
    using assms(1) g by (rule getDateString_fixed_offset_Some)
  ultimately show ?thesis using ttl by auto
qed

lemma derived_at_today_ttl:
  "derived_at z (''matches_today_'' @ d) en t \<Longrightarrow> ttlSeconds en = 1800"
  by (auto simp: derived_at_def)

lemma derived_at_upcoming_ttl:
  "derived_at z (''matches_upcoming_from_'' @ d) en t \<Longrightarrow> ttlSeconds en = 300"
  by (auto simp: derived_at_def)

lemma card_subset_pair: "S \<subseteq> {a, b} \<Longrightarrow> card S \<le> 2"
proof -
  assume "S \<subseteq> {a, b}"
  then have "card S \<le> card {a, b}" by (intro card_mono) simp_all
  also have "card {a, b} \<le> 2" by (simp add: card_insert_if)
  finally show ?thesis .
qed

lemma late_evening_request:
  "handle Today env_utc (clock_at 1704153000000) Map.empty =
     (Sent 200 \<lparr> payload = empty_result, cached = Some False, cacheTime = None,
                 fetchTime = Some ''2024-01-01T23:50:00.000Z'' \<rparr>,
      cache_set Map.empty ''matches_today_2024-01-01'' empty_result 1800 1704153000000,
      [Loader (Some ''2024-01-01'') (Some ''2024-01-02''),
       Outbound \<lparr> auth_token = ''tok'',
                  query = [(''dateFrom'', ''2024-01-01''), (''dateTo'', ''2024-01-02'')] \<rparr>,
       CacheSet ''matches_today_2024-01-01'' 1800])"
proof -
  have p: "route_plan Today (zone env_utc) (clock_at 1704153000000) =
      Some (''matches_today_2024-01-01'', 1800, Some ''2024-01-01'', Some ''2024-01-02'')"
    by code_simp
  have m: "cache_get Map.empty ''matches_today_2024-01-01'' (t_get (clock_at 1704153000000)) = None"
    by (simp add: cache_get_def)
  have f: "fetchMatches env_utc (t_catch (clock_at 1704153000000)) (Some ''2024-01-01'')
      (Some ''2024-01-02'') =
      (empty_result, [\<lparr> auth_token = ''tok'',
                  query = [(''dateFrom'', ''2024-01-01''), (''dateTo'', ''2024-01-02'')] \<rparr>])"
    by code_simp
  have e: "\<not> truthy (error empty_result)" by (simp add: empty_result_def truthy_def)
  have t: "toISOString 1704153000000 = ''2024-01-01T23:50:00.000Z''" by code_simp
  show ?thesis
    using handle_miss_ok [OF p m f e] by (simp add: clock_at_def t)
qed

lemma after_midnight_request:
  "handle Today env_utc (clock_at 1704153900000)
      (cache_set Map.empty ''matches_today_2024-01-01'' empty_result 1800 1704153000000) =
     (Sent 200 \<lparr> payload = empty_result, cached = Some False, cacheTime = None,
                 fetchTime = Some ''2024-01-02T00:05:00.000Z'' \<rparr>,
      cache_set (cache_set Map.empty ''matches_today_2024-01-01'' empty_result 1800 1704153000000)
        ''matches_today_2024-01-02'' empty_result 1800 1704153900000,
      [Loader (Some ''2024-01-02'') (Some ''2024-01-03''),
       Outbound \<lparr> auth_token = ''tok'',
                  query = [(''dateFrom'', ''2024-01-02''), (''dateTo'', ''2024-01-03'')] \<rparr>,
       CacheSet ''matches_today_2024-01-02'' 1800])"
proof -
  have p: "route_plan Today (zone env_utc) (clock_at 1704153900000) =
      Some (''matches_today_2024-01-02'', 1800, Some ''2024-01-02'', Some ''2024-01-03'')"
    by code_simp
  have m: "cache_get
      (cache_set Map.empty ''matches_today_2024-01-01'' empty_result 1800 1704153000000)
      ''matches_today_2024-01-02'' (t_get (clock_at 1704153900000)) = None"
    by (simp add: cache_get_def cache_set_def)
  have f: "fetchMatches env_utc (t_catch (clock_at 1704153900000)) (Some ''2024-01-02'')
      (Some ''2024-01-03'') =
      (empty_result, [\<lparr> auth_token = ''tok'',
                  query = [(''dateFrom'', ''2024-01-02''), (''dateTo'', ''2024-01-03'')] \<rparr>])"
    by code_simp
  have e: "\<not> truthy (error empty_result)" by (simp add: empty_result_def truthy_def)
  have t: "toISOString 1704153900000 = ''2024-01-02T00:05:00.000Z''" by code_simp
  show ?thesis
    using handle_miss_ok [OF p m f e] by (simp add: clock_at_def t)
qed

lemma midnight_cache_eq:
  "midnight_cache =
     cache_set (cache_set Map.empty ''matches_today_2024-01-01'' empty_result 1800 1704153000000)
        ''matches_today_2024-01-02'' empty_result 1800 1704153900000"
  by (simp add: midnight_cache_def late_evening_request after_midnight_request)

lemma midnight_cache_served: "served tz_utc 1704154200000 midnight_cache"
proof -
  have z: "zone env_utc = tz_utc" by (simp add: env_utc_def env_with_def)
  have o: "in_order (clock_at t)" "t_set (clock_at t) - t_today (clock_at t) \<le> max_request_ms"
    "t_today (clock_at t) = t" "t_send (clock_at t) = t" for t
    by (simp_all add: in_order_def clock_at_def max_request_ms_def)
  have "served tz_utc 1704153000000 Map.empty" by (rule served.start)
  from served.request [OF this z _ o(1,2) late_evening_request]
  have "served tz_utc 1704153000000
      (cache_set Map.empty ''matches_today_2024-01-01'' empty_result 1800 1704153000000)"
    by (simp add: o)
  from served.request [OF this z _ o(1,2) after_midnight_request]
  have "served tz_utc 1704153900000 midnight_cache"
    by (simp add: o midnight_cache_eq)
  then show ?thesis by (rule served.wait) simp
qed

lemma upcoming_events_example:
  "snd (snd (handle Upcoming env_utc (clock_at 1704110400000) Map.empty)) =
     [Loader (Some ''2024-01-02'') None,
      Outbound \<lparr> auth_token = ''tok'',
                 query = [(''dateFrom'', ''2024-01-02''), (''dateTo'', ''2024-01-07'')] \<rparr>,
      CacheSet ''matches_upcoming_from_2024-01-02'' 300]"
  by code_simp

lemma default_dateTo_utc_example:
  "\<exists>d. default_dateTo env_utc ''2024-03-08'' = Inr d \<and>
       parse_iso_date d = Some (1709856000000 + 5 * msPerDay)"
proof -
  have z: "fixed_offset (zone env_utc) 0"
    by (simp add: fixed_offset_def env_utc_def env_with_def tz_utc_def)
  have p: "parse_iso_date ''2024-03-08'' = Some 1709856000000" by code_simp
  have y1: "0 \<le> YearFromTime (1709856000000 + 5 * msPerDay)" by code_simp
  have y2: "YearFromTime (1709856000000 + 5 * msPerDay) \<le> 9999" by code_simp
  have b: "\<bar>1709856000000 + 5 * msPerDay\<bar> \<le> 8640000000000000"
    by (simp add: msPerDay_def)
  show ?thesis
    using z p y1 y2 b by (rule default_dateTo_fixed_offset_plus_5)
qed

section \<open>Date ranges of the outbound request\<close>

text \<open>
  C4, as stated: on a cache miss the upcoming route fetches the open range from tomorrow
  on, with no upper bound. It does not: at noon UTC on 1 January 2024 the handler calls
  fetchMatches(tomorrow, null), which fills in dateTo, and the outbound request carries
  dateFrom=2024-01-02 and dateTo=2024-01-07.
\<close>

theorem upcoming_range_counterexample:
  "snd (snd (handle Upcoming env_utc (clock_at 1704110400000) Map.empty)) =
     [Loader (Some ''2024-01-02'') None,
      Outbound \<lparr> auth_token = ''tok'',
                 query = [(''dateFrom'', ''2024-01-02''), (''dateTo'', ''2024-01-07'')] \<rparr>,
      CacheSet ''matches_upcoming_from_2024-01-02'' 300]"
  by (rule upcoming_events_example)

text \<open>
  C4, amended: on a cache miss the upcoming route fetches the bounded range from tomorrow
  to five days after tomorrow. On a server with a token configured, node-fetch loaded
  and a local time zone of fixed offset, at a clock reading between 1970 and the year
  9987, the handler calls fetchMatches(tomorrow, null) and issues exactly one outbound
  request, with dateFrom the calendar date of the day after the current UTC day and
  dateTo the calendar date five days after dateFrom. (What the date arithmetic does
  across a change of the zone's offset is left open here.)
\<close>

theorem upcoming_fetch_range:
  assumes "fixed_offset (zone e) k"
    and "truthy (FOOTBALL_API_TOKEN e)" and "import_failure e = None"
    and "0 \<le> t_tomorrow clk" and "t_tomorrow clk \<le> 253000000000000"
    and "cache_get c (''matches_upcoming_from_'' @ day_string (Day (t_tomorrow clk) + 1))
           (t_get clk) = None"
  shows "(\<exists>out c' rest.
            handle Upcoming e clk c =
              (out, c',
               Loader (Some (day_string (Day (t_tomorrow clk) + 1))) None #
               Outbound \<lparr> auth_token = str_of (FOOTBALL_API_TOKEN e),
                          query = [(''dateFrom'', day_string (Day (t_tomorrow clk) + 1)),
                                   (''dateTo'', day_string (Day (t_tomorrow clk) + 6))] \<rparr> #
               rest) \<and>
            (rest = [] \<or>
             rest = [CacheSet (''matches_upcoming_from_'' @ day_string (Day (t_tomorrow clk) + 1))
                       300])) \<and>
         parse_iso_date (day_string (Day (t_tomorrow clk) + 1)) =
           Some ((Day (t_tomorrow clk) + 1) * msPerDay) \<and>
         parse_iso_date (day_string (Day (t_tomorrow clk) + 6)) =
           Some ((Day (t_tomorrow clk) + 6) * msPerDay)"
proof -
  define d where "d = Day (t_tomorrow clk) + 1"
  have D: "0 \<le> Day (t_tomorrow clk)" "Day (t_tomorrow clk) \<le> 2928240"
    using Day_bounds [OF assms(4,5)] by simp_all
  then have d: "0 \<le> d" "d < 2930000" by (simp_all add: d_def)
  have d6: "Day (t_tomorrow clk) + 6 = d + 5" by (simp add: d_def)
  have "\<bar>t_tomorrow clk + 1 * msPerDay\<bar> \<le> 8640000000000000"
    using assms(4,5) by (simp add: msPerDay_def)
  with assms(1) have g: "getDateString (zone e) (t_tomorrow clk) 1 = Some (day_string d)"
    unfolding d_def by (rule getDateString_fixed_offset_day)
  have p: "route_plan Upcoming (zone e) clk =
      Some (''matches_upcoming_from_'' @ day_string d, 300, Some (day_string d), None)"
    by (simp add: route_plan_def g)
  have b: "build_request e (str_of (FOOTBALL_API_TOKEN e)) (Some (day_string d)) None =
      Inr \<lparr> auth_token = str_of (FOOTBALL_API_TOKEN e),
            query = [(''dateFrom'', day_string d), (''dateTo'', day_string (d + 5))] \<rparr>"
    using assms(1,3) d by (rule build_request_from_day)
  have r: "snd (fetchMatches e (t_catch clk) (Some (day_string d)) None) =
      [\<lparr> auth_token = str_of (FOOTBALL_API_TOKEN e),
         query = [(''dateFrom'', day_string d), (''dateTo'', day_string (d + 5))] \<rparr>]"
    using assms(2) b by (rule fetchMatches_one_request)
  have m: "cache_get c (''matches_upcoming_from_'' @ day_string d) (t_get clk) = None"
    using assms(6) by (simp add: d_def)
  have ev: "\<exists>out c' rest.
      handle Upcoming e clk c =
        (out, c',
         Loader (Some (day_string d)) None #
         Outbound \<lparr> auth_token = str_of (FOOTBALL_API_TOKEN e),
                    query = [(''dateFrom'', day_string d), (''dateTo'', day_string (d + 5))] \<rparr> #
         rest) \<and>
      (rest = [] \<or> rest = [CacheSet (''matches_upcoming_from_'' @ day_string d) 300])"
    using serve_miss_events [OF m r, of 300] by (simp add: handle_serve [OF p])
  have p1: "parse_iso_date (day_string d) = Some (d * msPerDay)"
    using d by (intro parse_iso_date_day_string) simp_all
  have p2: "parse_iso_date (day_string (d + 5)) = Some ((d + 5) * msPerDay)"
    using d by (intro parse_iso_date_day_string) simp_all
  from ev p1 p2 show ?thesis
    unfolding d6 by (simp add: d_def)
qed

theorem upcoming_fetch_range_witness:
  "(\<exists>out c' rest.
      handle Upcoming env_utc (clock_at 1704110400000) Map.empty =
        (out, c',
         Loader (Some ''2024-01-02'') None #
         Outbound \<lparr> auth_token = ''tok'',
                    query = [(''dateFrom'', ''2024-01-02''), (''dateTo'', ''2024-01-07'')] \<rparr> #
         rest) \<and>
      (rest = [] \<or> rest = [CacheSet ''matches_upcoming_from_2024-01-02'' 300])) \<and>
   parse_iso_date ''2024-01-02'' = Some (19724 * msPerDay) \<and>
   parse_iso_date ''2024-01-07'' = Some (19729 * msPerDay)"
proof -
  have z: "fixed_offset (zone env_utc) 0"
    by (simp add: fixed_offset_def env_utc_def env_with_def tz_utc_def)
  have k: "truthy (FOOTBALL_API_TOKEN env_utc)" "import_failure env_utc = None"
    by (simp_all add: env_utc_def env_with_def truthy_def)
  have r: "0 \<le> t_tomorrow (clock_at 1704110400000)"
    "t_tomorrow (clock_at 1704110400000) \<le> 253000000000000"
    by (simp_all add: clock_at_def)
  have m: "cache_get Map.empty
      (''matches_upcoming_from_'' @ day_string (Day (t_tomorrow (clock_at 1704110400000)) + 1))
      (t_get (clock_at 1704110400000)) = None"
    by (simp add: cache_get_def)
  have d1: "day_string 19724 = ''2024-01-02''" by code_simp
  have d6: "day_string 19729 = ''2024-01-07''" by code_simp
  have n: "Day (t_tomorrow (clock_at 1704110400000)) = 19723" by code_simp
  have s: "str_of (FOOTBALL_API_TOKEN env_utc) = ''tok''"
    by (simp add: env_utc_def env_with_def str_of_def)
  show ?thesis
    using upcoming_fetch_range [OF z k r m] unfolding s n by (simp add: d1 d6)
qed

text \<open>
  C5: with dateFrom supplied and dateTo omitted, the effective dateTo should be dateFrom
  plus 5 days. Lines 68-70 parse the date-only string as midnight UTC, add 5 to the day
  of the month in local time and print the result in UTC; when the local zone changes
  its offset within the window, the local day and the UTC day drift apart. On a server
  in New York, dateFrom 2024-03-08 gives the request dateTo 2024-03-12, four days later.
\<close>

theorem default_dateTo_spring_forward:
  "snd (fetchMatches env_new_york 0 (Some ''2024-03-08'') None) =
     [\<lparr> auth_token = ''tok'',
        query = [(''dateFrom'', ''2024-03-08''), (''dateTo'', ''2024-03-12'')] \<rparr>]"
  by code_simp

section \<open>Cache keys\<close>

text \<open>
  C9, as stated: at every moment the cache holds at most one unexpired entry per route.
  It can hold two: after requests to the today route at 23:50 and at 00:05 UTC, the
  entries under \<open>matches_today_2024-01-01\<close> and \<open>matches_today_2024-01-02\<close> are both
  readable at 00:10 UTC.
\<close>

theorem two_live_today_keys:
  "served tz_utc 1704154200000 midnight_cache \<and>
   cache_get midnight_cache ''matches_today_2024-01-01'' 1704154200000 = Some empty_result \<and>
   cache_get midnight_cache ''matches_today_2024-01-02'' 1704154200000 = Some empty_result"
proof -
  have "cache_get midnight_cache ''matches_today_2024-01-01'' 1704154200000 =
     Some empty_result"
    by (simp add: midnight_cache_eq cache_get_def cache_set_def readable_def)
  moreover have "cache_get midnight_cache ''matches_today_2024-01-02'' 1704154200000 =
     Some empty_result"
    by (simp add: midnight_cache_eq cache_get_def cache_set_def readable_def)
  ultimately show ?thesis using midnight_cache_served by simp
qed

text \<open>
  C9, amended: at every reachable moment the cache holds at most two unexpired entries
  per route, those of two neighbouring dates. For a server in a time zone of fixed
  offset that serves its requests one after the other, each within 23.5 hours: the
  unexpired keys of the today route are among \<open>matches_today_<d>\<close> for the current UTC
  date and the date before, and those of the upcoming route among
  \<open>matches_upcoming_from_<d>\<close> for the current UTC date and the date after. Entries of
  the today route carry a TTL of 1800 seconds and those of the upcoming route one of 300
  seconds, so the entry of the older date is unexpired for at most that long after it
  was stored.
\<close>

theorem at_most_two_live_keys_per_route:
  assumes "served z now c" and "fixed_offset z k0"
  shows "live_dates ''matches_today_'' c now \<subseteq> {day_string (Day now - 1), day_string (Day now)} \<and>
         live_dates ''matches_upcoming_from_'' c now \<subseteq>
           {day_string (Day now), day_string (Day now + 1)} \<and>
         card (live_dates ''matches_today_'' c now) \<le> 2 \<and>
         card (live_dates ''matches_upcoming_from_'' c now) \<le> 2 \<and>
         (\<forall>d en. c (''matches_today_'' @ d) = Some en \<longrightarrow>
                   ttlSeconds en = 1800 \<and> storedAt en \<le> now) \<and>
         (\<forall>d en. c (''matches_upcoming_from_'' @ d) = Some en \<longrightarrow>
                   ttlSeconds en = 300 \<and> storedAt en \<le> now)"
proof -
  have t1: "\<forall>d en. c (''matches_today_'' @ d) = Some en \<longrightarrow>
      ttlSeconds en = 1800 \<and> storedAt en \<le> now"
  proof (intro allI impI)
    fix d en assume "c (''matches_today_'' @ d) = Some en"
    from served_entries [OF assms(1) this] obtain t where
      "storedAt en \<le> now" "derived_at z (''matches_today_'' @ d) en t" by blast
    then show "ttlSeconds en = 1800 \<and> storedAt en \<le> now"
      using derived_at_today_ttl by blast
  qed
  have t2: "\<forall>d en. c (''matches_upcoming_from_'' @ d) = Some en \<longrightarrow>
      ttlSeconds en = 300 \<and> storedAt en \<le> now"
  proof (intro allI impI)
    fix d en assume "c (''matches_upcoming_from_'' @ d) = Some en"
    from served_entries [OF assms(1) this] obtain t where
      "storedAt en \<le> now" "derived_at z (''matches_upcoming_from_'' @ d) en t" by blast
    then show "ttlSeconds en = 300 \<and> storedAt en \<le> now"
      using derived_at_upcoming_ttl by blast
  qed
  have a: "live_dates ''matches_today_'' c now \<subseteq> {day_string (Day now - 1), day_string (Day now)}"
  proof
    fix d assume "d \<in> live_dates ''matches_today_'' c now"
    then obtain en where en: "c (''matches_today_'' @ d) = Some en" and r: "readable en now"
      by (auto simp: live_dates_def cache_get_def split: option.splits if_splits)
    from served_entries [OF assms(1) en] obtain t where
      "storedAt en \<le> now" "derived_at z (''matches_today_'' @ d) en t" by blast
    with today_entry_dates [OF assms(2) _ _ r] show "d \<in> {day_string (Day now - 1), day_string (Day now)}"
      by blast
  qed
  have b: "live_dates ''matches_upcoming_from_'' c now \<subseteq>
      {day_string (Day now), day_string (Day now + 1)}"
  proof
    fix d assume "d \<in> live_dates ''matches_upcoming_from_'' c now"
    then obtain en where en: "c (''matches_upcoming_from_'' @ d) = Some en"
      and r: "readable en now"
      by (auto simp: live_dates_def cache_get_def split: option.splits if_splits)
    from served_entries [OF assms(1) en] obtain t where
      "storedAt en \<le> now" "derived_at z (''matches_upcoming_from_'' @ d) en t" by blast
    with upcoming_entry_dates [OF assms(2) _ _ r]
    show "d \<in> {day_string (Day now), day_string (Day now + 1)}"
      by blast
  qed
  from a b card_subset_pair [OF a] card_subset_pair [OF b] t1 t2 show ?thesis
    by (intro conjI)
qed

theorem at_most_two_live_keys_per_route_witness:
  "live_dates ''matches_today_'' midnight_cache 1704154200000 \<subseteq> {''2024-01-01'', ''2024-01-02''} \<and>
   live_dates ''matches_upcoming_from_'' midnight_cache 1704154200000 \<subseteq>
     {''2024-01-02'', ''2024-01-03''} \<and>
   card (live_dates ''matches_today_'' midnight_cache 1704154200000) \<le> 2 \<and>
   card (live_dates ''matches_upcoming_from_'' midnight_cache 1704154200000) \<le> 2"
proof -
  have z: "fixed_offset tz_utc 0" by (simp add: fixed_offset_def tz_utc_def)
  have d0: "day_string (Day 1704154200000 - 1) = ''2024-01-01''" by code_simp
  have d1: "day_string (Day 1704154200000) = ''2024-01-02''" by code_simp
  have d2: "day_string (Day 1704154200000 + 1) = ''2024-01-03''" by code_simp
  show ?thesis
    using at_most_two_live_keys_per_route [OF midnight_cache_served z]
    unfolding d0 d1 d2 by blast
qed

end
